theory Spec2Isabelle
  imports Complex_Main "HOL-Library.Multiset"
begin

section \<open>JavaScript numbers\<close>

text \<open>
  A JavaScript number is a value of the IEEE 754 binary64 format: a finite value or one of
  the three special values. A finite value is the real number it stands for, and zero
  carries no sign. Every arithmetic operation rounds its exact result to the format, to the
  nearest value with ties to the even significand, and gives an infinity when the rounded
  result leaves the range of the format. A decimal literal of the program is written as the
  real it denotes.
\<close>

datatype jsnum = Fin real | PInf | NInf | NaN

text \<open>
  Rounding to the nearest integer, ties to even; the exponent of the binade of \<open>x\<close>, that
  of the subnormal numbers at the least; the spacing of the format there, with \<open>53\<close> bits of
  significand; the nearest value of the format, were its exponent unbounded above; and the
  number that an operation with the exact result \<open>x\<close> returns.
\<close>

definition round_even :: "real \<Rightarrow> int" where
  "round_even r =
     (if r - of_int \<lfloor>r\<rfloor> < 1 / 2 then \<lfloor>r\<rfloor>
      else if 1 / 2 < r - of_int \<lfloor>r\<rfloor> then \<lfloor>r\<rfloor> + 1
      else if even \<lfloor>r\<rfloor> then \<lfloor>r\<rfloor> else \<lfloor>r\<rfloor> + 1)"

definition binade :: "real \<Rightarrow> int" where
  "binade x = max \<lfloor>log 2 \<bar>x\<bar>\<rfloor> (- 1022)"

definition quantum :: "real \<Rightarrow> real" where
  "quantum x = 2 powi (binade x - 52)"

definition round_real :: "real \<Rightarrow> real" where
  "round_real x = of_int (round_even (x / quantum x)) * quantum x"

definition to_double :: "real \<Rightarrow> jsnum" where
  "to_double x =
     (if 2 powi 1024 \<le> round_real x then PInf
      else if round_real x \<le> - (2 powi 1024) then NInf
      else Fin (round_real x))"

text \<open>\<open>a < b\<close>: false as soon as one side is NaN.\<close>

fun js_lt :: "jsnum \<Rightarrow> jsnum \<Rightarrow> bool" where
  "js_lt NaN b = False"
| "js_lt a NaN = False"
| "js_lt (Fin a) (Fin b) = (a < b)"
| "js_lt (Fin a) PInf = True"
| "js_lt (Fin a) NInf = False"
| "js_lt PInf b = False"
| "js_lt NInf NInf = False"
| "js_lt NInf b = True"

text \<open>\<open>a > b\<close> and \<open>a <= b\<close>.\<close>

definition js_gt :: "jsnum \<Rightarrow> jsnum \<Rightarrow> bool" where
  "js_gt a b = js_lt b a"

definition js_le :: "jsnum \<Rightarrow> jsnum \<Rightarrow> bool" where
  "js_le a b = (js_lt a b \<or> (a = b \<and> a \<noteq> NaN))"

text \<open>\<open>a === b\<close> on numbers: NaN is not equal to itself.\<close>

definition js_seq :: "jsnum \<Rightarrow> jsnum \<Rightarrow> bool" where
  "js_seq a b = (a = b \<and> a \<noteq> NaN)"

definition js_isNaN :: "jsnum \<Rightarrow> bool" where
  "js_isNaN a = (a = NaN)"

fun js_isFinite :: "jsnum \<Rightarrow> bool" where
  "js_isFinite (Fin a) = True"
| "js_isFinite a = False"

text \<open>Truthiness of a number: \<open>0\<close> and NaN are falsy.\<close>

definition js_truthy :: "jsnum \<Rightarrow> bool" where
  "js_truthy a = (a \<noteq> Fin 0 \<and> a \<noteq> NaN)"

fun js_neg :: "jsnum \<Rightarrow> jsnum" where
  "js_neg (Fin a) = Fin (- a)"
| "js_neg PInf = NInf"
| "js_neg NInf = PInf"
| "js_neg NaN = NaN"

fun js_add :: "jsnum \<Rightarrow> jsnum \<Rightarrow> jsnum" where
  "js_add NaN b = NaN"
| "js_add a NaN = NaN"
| "js_add (Fin a) (Fin b) = to_double (a + b)"
| "js_add (Fin a) b = b"
| "js_add a (Fin b) = a"
| "js_add PInf PInf = PInf"
| "js_add NInf NInf = NInf"
| "js_add PInf NInf = NaN"
| "js_add NInf PInf = NaN"

definition js_sub :: "jsnum \<Rightarrow> jsnum \<Rightarrow> jsnum" where
  "js_sub a b = js_add a (js_neg b)"

text \<open>An infinity with the sign of a non-zero real.\<close>

definition inf_of_sign :: "real \<Rightarrow> jsnum" where
  "inf_of_sign r = (if 0 < r then PInf else NInf)"

fun js_mul :: "jsnum \<Rightarrow> jsnum \<Rightarrow> jsnum" where
  "js_mul NaN b = NaN"
| "js_mul a NaN = NaN"
| "js_mul (Fin a) (Fin b) = to_double (a * b)"
| "js_mul (Fin a) PInf = (if a = 0 then NaN else inf_of_sign a)"
| "js_mul (Fin a) NInf = (if a = 0 then NaN else inf_of_sign (- a))"
| "js_mul PInf (Fin b) = (if b = 0 then NaN else inf_of_sign b)"
| "js_mul NInf (Fin b) = (if b = 0 then NaN else inf_of_sign (- b))"
| "js_mul PInf PInf = PInf"
| "js_mul NInf NInf = PInf"
| "js_mul PInf NInf = NInf"
| "js_mul NInf PInf = NInf"

text \<open>
  Division. A zero divisor is taken as \<open>+0\<close>, the model having one zero; the controller
  divides by \<open>10\<close> and by a per-mode maximum that is never zero.
\<close>

fun js_div :: "jsnum \<Rightarrow> jsnum \<Rightarrow> jsnum" where
  "js_div NaN b = NaN"
| "js_div a NaN = NaN"
| "js_div (Fin a) (Fin b) =
     (if b = 0 then (if a = 0 then NaN else inf_of_sign a) else to_double (a / b))"
| "js_div (Fin a) b = Fin 0"
| "js_div PInf (Fin b) = (if 0 \<le> b then PInf else NInf)"
| "js_div NInf (Fin b) = (if 0 \<le> b then NInf else PInf)"
| "js_div a b = NaN"

fun js_abs :: "jsnum \<Rightarrow> jsnum" where
  "js_abs (Fin a) = Fin \<bar>a\<bar>"
| "js_abs NaN = NaN"
| "js_abs a = PInf"

text \<open>\<open>Math.max\<close> and \<open>Math.min\<close> of two arguments: NaN if either is NaN.\<close>

definition js_max :: "jsnum \<Rightarrow> jsnum \<Rightarrow> jsnum" where
  "js_max a b = (if a = NaN \<or> b = NaN then NaN else if js_lt a b then b else a)"

definition js_min :: "jsnum \<Rightarrow> jsnum \<Rightarrow> jsnum" where
  "js_min a b = (if a = NaN \<or> b = NaN then NaN else if js_lt b a then b else a)"

text \<open>
  \<open>Math.sin\<close>, which ECMAScript leaves to the implementation to approximate, is the sine
  rounded to the format; the proofs use of it that \<open>sin(0)\<close> is \<open>0\<close> and nothing else.
\<close>

fun js_sin :: "jsnum \<Rightarrow> jsnum" where
  "js_sin (Fin a) = to_double (sin a)"
| "js_sin a = NaN"

text \<open>
  A number of the format: a special value, or a finite value that rounding leaves as it is.
  The operations return such numbers only.
\<close>

fun js_double :: "jsnum \<Rightarrow> bool" where
  "js_double (Fin a) = (to_double a = Fin a)"
| "js_double a = True"

text \<open>A number read from a lookup that may give \<open>undefined\<close>: arithmetic sees NaN.\<close>

fun num_or_undefined :: "jsnum option \<Rightarrow> jsnum" where
  "num_or_undefined None = NaN"
| "num_or_undefined (Some a) = a"

section \<open>JavaScript maps\<close>

text \<open>
  A \<open>Map\<close> is the list of its entries in insertion order. Keys are compared by
  SameValueZero, which on \<^typ>\<open>jsnum\<close> is equality: one zero, and NaN equal to itself.
  \<open>set\<close> on a present key replaces the value where the entry stands.
\<close>

type_synonym ('k, 'v) jsmap = "('k \<times> 'v) list"

fun map_set :: "'k \<Rightarrow> 'v \<Rightarrow> ('k, 'v) jsmap \<Rightarrow> ('k, 'v) jsmap" where
  "map_set k v [] = [(k, v)]"
| "map_set k v ((k', v') # m) = (if k' = k then (k, v) # m else (k', v') # map_set k v m)"

definition map_get :: "('k, 'v) jsmap \<Rightarrow> 'k \<Rightarrow> 'v option" where
  "map_get m k = map_of m k"

definition map_has :: "('k, 'v) jsmap \<Rightarrow> 'k \<Rightarrow> bool" where
  "map_has m k = (map_of m k \<noteq> None)"

definition map_keys :: "('k, 'v) jsmap \<Rightarrow> 'k list" where
  "map_keys m = map fst m"

definition map_values :: "('k, 'v) jsmap \<Rightarrow> 'v list" where
  "map_values m = map snd m"

section \<open>Parsed JSON\<close>

text \<open>
  A value as \<open>JSON.parse\<close> returns it. An object is the list of its own properties in
  the order \<open>Object.entries\<close> lists them.
\<close>

datatype json =
    JNull
  | JBool bool
  | JNum jsnum
  | JStr string
  | JArr "json list"
  | JObj "(string \<times> json) list"

section \<open>The data set\<close>

record node =
  node_id :: jsnum
  node_x :: jsnum
  node_y :: jsnum
  node_z :: jsnum

record line =
  line_id :: jsnum
  nodeI :: jsnum
  nodeJ :: jsnum

record floor_data =
  meta :: json
  nodes :: "(jsnum, node) jsmap"
  nodeIdCounts :: "(jsnum, nat) jsmap"
  lines :: "line list"
  freqHz :: "(jsnum, jsnum) jsmap"
  modes :: "(jsnum, (jsnum, jsnum) jsmap) jsmap"

section \<open>parser.js\<close>

text \<open>
  The model of \<open>parseFloorData\<close> starts at \<open>raw\<close>, the value that \<open>JSON.parse\<close>
  returns. Reading a property of \<open>null\<close> throws a TypeError; of any other value that is
  not an object it gives \<open>undefined\<close> (\<open>None\<close>) for the names the parser reads.
\<close>

datatype js_error = TypeError

text \<open>The value of a string of decimal digits.\<close>

definition digit_of :: "char \<Rightarrow> nat option" where
  "digit_of ch =
     map_of [(CHR ''0'', 0), (CHR ''1'', 1), (CHR ''2'', 2), (CHR ''3'', 3), (CHR ''4'', 4),
             (CHR ''5'', 5), (CHR ''6'', 6), (CHR ''7'', 7), (CHR ''8'', 8), (CHR ''9'', 9)] ch"

fun digits_value :: "string \<Rightarrow> nat \<Rightarrow> nat option" where
  "digits_value [] acc = Some acc"
| "digits_value (ch # s) acc =
     (case digit_of ch of None \<Rightarrow> None | Some v \<Rightarrow> digits_value s (10 * acc + v))"

text \<open>
  \<open>toCamelCase\<close>: \<open>key.replace(/[_-]([a-z0-9])/gi, (_, ch) => ch.toUpperCase())\<close>. The
  key is scanned from the left; an underscore or a hyphen followed by an ASCII letter or
  digit is replaced, with that character, by the character in upper case, and the scan goes
  on after the two. Keys are strings of 8-bit characters.
\<close>

definition is_alnum :: "char \<Rightarrow> bool" where
  "is_alnum ch =
     (ch \<in> set ''abcdefghijklmnopqrstuvwxyzABCDEFGHIJKLMNOPQRSTUVWXYZ0123456789'')"

definition upper_char :: "char \<Rightarrow> char" where
  "upper_char ch =
     (case map_of (zip ''abcdefghijklmnopqrstuvwxyz'' ''ABCDEFGHIJKLMNOPQRSTUVWXYZ'') ch of
        None \<Rightarrow> ch
      | Some u \<Rightarrow> u)"

fun toCamelCase :: "string \<Rightarrow> string" where
  "toCamelCase (c # d # s) =
     (if (c = CHR ''_'' \<or> c = CHR ''-'') \<and> is_alnum d then upper_char d # toCamelCase s
      else c # toCamelCase (d # s))"
| "toCamelCase s = s"

text \<open>
  The own properties of an ordinary object are listed with the array indices first, in
  ascending order, then the other keys in the order of their creation. An array index is the
  canonical decimal string of an integer below \<open>2^32 - 1\<close>. \<open>obj_set\<close> is the assignment
  \<open>result[k] = v\<close>: it replaces the value of a key that is present and creates the others
  at their place in this order.
\<close>

definition array_index :: "string \<Rightarrow> nat option" where
  "array_index k =
     (case k of
        [] \<Rightarrow> None
      | c # cs \<Rightarrow>
          if c = CHR ''0'' \<and> cs \<noteq> [] then None
          else (case digits_value k 0 of
                  None \<Rightarrow> None
                | Some v \<Rightarrow> if v < 4294967295 then Some v else None))"

definition key_before :: "string \<Rightarrow> string \<Rightarrow> bool" where
  "key_before k k' =
     (case array_index k of
        None \<Rightarrow> False
      | Some i \<Rightarrow> (case array_index k' of None \<Rightarrow> True | Some j \<Rightarrow> i < j))"

fun obj_insert :: "string \<Rightarrow> 'a \<Rightarrow> (string \<times> 'a) list \<Rightarrow> (string \<times> 'a) list" where
  "obj_insert k v [] = [(k, v)]"
| "obj_insert k v ((k', v') # kvs) =
     (if key_before k k' then (k, v) # (k', v') # kvs else (k', v') # obj_insert k v kvs)"

definition obj_set :: "string \<Rightarrow> 'a \<Rightarrow> (string \<times> 'a) list \<Rightarrow> (string \<times> 'a) list" where
  "obj_set k v kvs =
     (if map_of kvs k = None then obj_insert k v kvs
      else map (\<lambda>(k', v'). if k' = k then (k', v) else (k', v')) kvs)"

text \<open>
  \<open>convertKeysToCamelCase\<close>: an array is mapped, an object is rebuilt by assigning, for
  each entry in turn, the converted value to the converted key, and any other value is
  returned as it is. Two keys with the same conversion leave one property, with the value of
  the later.
\<close>

primrec convertKeysToCamelCase :: "json \<Rightarrow> json" where
  "convertKeysToCamelCase JNull = JNull"
| "convertKeysToCamelCase (JBool b) = JBool b"
| "convertKeysToCamelCase (JNum a) = JNum a"
| "convertKeysToCamelCase (JStr s) = JStr s"
| "convertKeysToCamelCase (JArr xs) = JArr (map convertKeysToCamelCase xs)"
| "convertKeysToCamelCase (JObj kvs) =
     JObj (fold (\<lambda>(k, v) result. obj_set (toCamelCase k) v result)
             (map (map_prod id convertKeysToCamelCase) kvs) [])"


fun get_prop :: "json \<Rightarrow> string \<Rightarrow> json option" where
  "get_prop (JObj kvs) k = map_of kvs k"
| "get_prop j k = None"

text \<open>\<open>v ?? d\<close>: the default replaces \<open>undefined\<close> and \<open>null\<close>.\<close>

fun coalesce :: "json option \<Rightarrow> json \<Rightarrow> json" where
  "coalesce None d = d"
| "coalesce (Some JNull) d = d"
| "coalesce (Some j) d = j"

text \<open>
  \<open>Number(v)\<close>. The conversion of strings, arrays and objects (ToPrimitive, then
  StringToNumber) is the parameter \<open>sn\<close>.
\<close>

fun js_Number :: "(json \<Rightarrow> jsnum) \<Rightarrow> json option \<Rightarrow> jsnum" where
  "js_Number sn None = NaN"
| "js_Number sn (Some (JNum a)) = a"
| "js_Number sn (Some JNull) = Fin 0"
| "js_Number sn (Some (JBool b)) = Fin (if b then 1 else 0)"
| "js_Number sn (Some j) = sn j"

text \<open>\<open>v && typeof v === 'object'\<close>: objects and arrays; \<open>null\<close> is falsy.\<close>

fun is_object :: "json \<Rightarrow> bool" where
  "is_object (JObj kvs) = True"
| "is_object (JArr xs) = True"
| "is_object j = False"

fun digit_char :: "nat \<Rightarrow> char" where
  "digit_char n = (''0123456789'' ! (n mod 10))"

fun str_nat :: "nat \<Rightarrow> string" where
  "str_nat n = (if n < 10 then [digit_char n] else str_nat (n div 10) @ [digit_char n])"

text \<open>\<open>Object.entries\<close>: an array lists its indices as keys.\<close>

fun entries :: "json \<Rightarrow> (string \<times> json) list" where
  "entries (JObj kvs) = kvs"
| "entries (JArr xs) = zip (map str_nat [0..<length xs]) xs"
| "entries j = []"

text \<open>
  Step 4: the node that the body of the loop over \<open>data.nodes\<close> builds from an entry,
  and the loop on the two maps it fills.
\<close>

definition parse_node :: "(json \<Rightarrow> jsnum) \<Rightarrow> json \<Rightarrow> node" where
  "parse_node sn n =
     \<lparr>node_id = js_Number sn (get_prop n ''id''),
      node_x = js_Number sn (Some (coalesce (get_prop n ''x'') (JNum (Fin 0)))),
      node_y = js_Number sn (Some (coalesce (get_prop n ''y'') (JNum (Fin 0)))),
      node_z = js_Number sn (Some (coalesce (get_prop n ''z'') (JNum (Fin 0))))\<rparr>"

fun parse_nodes ::
  "(json \<Rightarrow> jsnum) \<Rightarrow> json list \<Rightarrow> (jsnum, node) jsmap \<times> (jsnum, nat) jsmap
    \<Rightarrow> js_error + (jsnum, node) jsmap \<times> (jsnum, nat) jsmap" where
  "parse_nodes sn [] acc = Inr acc"
| "parse_nodes sn (n # ns) (nm, cm) =
     (if n = JNull then Inl TypeError
      else parse_nodes sn ns
             (map_set (node_id (parse_node sn n)) (parse_node sn n) nm,
              map_set (node_id (parse_node sn n))
                ((case map_get cm (node_id (parse_node sn n)) of None \<Rightarrow> 0 | Some c \<Rightarrow> c) + 1)
                cm))"

text \<open>Step 5: the loop over \<open>data.lines\<close>.\<close>

fun parse_lines :: "(json \<Rightarrow> jsnum) \<Rightarrow> json list \<Rightarrow> line list \<Rightarrow> js_error + line list" where
  "parse_lines sn [] acc = Inr acc"
| "parse_lines sn (l # ls) acc =
     (if l = JNull then Inl TypeError
      else parse_lines sn ls
             (acc @ [\<lparr>line_id = js_Number sn (get_prop l ''id''),
                      nodeI = js_Number sn (get_prop l ''nodeI''),
                      nodeJ = js_Number sn (get_prop l ''nodeJ'')\<rparr>]))"

text \<open>Step 6: the frequency table.\<close>

definition parse_freqHz :: "(json \<Rightarrow> jsnum) \<Rightarrow> json option \<Rightarrow> (jsnum, jsnum) jsmap" where
  "parse_freqHz sn v =
     (case v of
        None \<Rightarrow> []
      | Some fq \<Rightarrow>
          if is_object fq
          then fold (\<lambda>(key, val) m. map_set (js_Number sn (Some (JStr key))) (js_Number sn (Some val)) m)
                 (entries fq) []
          else [])"

text \<open>Step 7: one mode shape, every node at \<open>0.0\<close> first, then the values of the source.\<close>

definition parse_uzMap ::
  "(json \<Rightarrow> jsnum) \<Rightarrow> (jsnum, node) jsmap \<Rightarrow> json \<Rightarrow> (jsnum, jsnum) jsmap" where
  "parse_uzMap sn nm modeVal =
     (let uzMap = fold (\<lambda>nodeId m. map_set nodeId (Fin 0) m) (map_keys nm) []
      in if is_object modeVal
         then fold (\<lambda>(nodeKey, uzVal) m.
                      map_set (js_Number sn (Some (JStr nodeKey))) (js_Number sn (Some uzVal)) m)
                (entries modeVal) uzMap
         else uzMap)"

definition parse_modes ::
  "(json \<Rightarrow> jsnum) \<Rightarrow> (jsnum, node) jsmap \<Rightarrow> json option
    \<Rightarrow> (jsnum, (jsnum, jsnum) jsmap) jsmap" where
  "parse_modes sn nm v =
     (case v of
        None \<Rightarrow> []
      | Some ms \<Rightarrow>
          if is_object ms
          then fold (\<lambda>(modeKey, modeVal) m.
                      map_set (js_Number sn (Some (JStr modeKey))) (parse_uzMap sn nm modeVal) m)
                 (entries ms) []
          else [])"

text \<open>Steps 3 to 7, on the value \<open>data\<close> that the conversion of the keys returns.\<close>

definition parse_converted :: "(json \<Rightarrow> jsnum) \<Rightarrow> json \<Rightarrow> js_error + floor_data" where
  "parse_converted sn data =
     (if data = JNull then Inl TypeError
      else
        case (case get_prop data ''nodes'' of
                Some (JArr ns) \<Rightarrow> parse_nodes sn ns ([], [])
              | _ \<Rightarrow> Inr ([], [])) of
          Inl e \<Rightarrow> Inl e
        | Inr (nm, cm) \<Rightarrow>
            (case (case get_prop data ''lines'' of
                     Some (JArr ls) \<Rightarrow> parse_lines sn ls []
                   | _ \<Rightarrow> Inr []) of
               Inl e \<Rightarrow> Inl e
             | Inr ll \<Rightarrow>
                 Inr \<lparr>meta = coalesce (get_prop data ''meta'') (JObj []),
                      nodes = nm,
                      nodeIdCounts = cm,
                      lines = ll,
                      freqHz = parse_freqHz sn (get_prop data ''freqHz''),
                      modes = parse_modes sn nm (get_prop data ''modes'')\<rparr>))"

text \<open>\<open>parseFloorData\<close>, from step 2 on.\<close>

definition parseFloorData :: "(json \<Rightarrow> jsnum) \<Rightarrow> json \<Rightarrow> js_error + floor_data" where
  "parseFloorData sn raw = (let data = convertKeysToCamelCase raw in parse_converted sn data)"

section \<open>validator.js\<close>

definition EPS :: jsnum where
  "EPS = Fin (1 / 10 ^ 9)"

definition MAX_ERRORS :: nat where
  "MAX_ERRORS = 100"

datatype code_name =
    E_MISSING_KEY | E_NODES_EMPTY | E_NODE_DUPLICATE | E_LINES_EMPTY | E_LINE_DUPLICATE
  | E_LINE_NODE_UNDEF | E_LINE_SELF_LOOP | E_FREQ_NAN | E_FREQ_INFINITY | E_FREQ_NON_POSITIVE
  | E_MODE_FREQ_MISMATCH | E_MODE_NODE_UNDEF | E_UZ_NAN | E_UZ_INFINITY
  | W_FREQ_HIGH | W_MODE_ALL_ZERO | W_NODE_Z_MIXED

text \<open>
  An entry is \<open>{code, message}\<close>. The message is the code and a fixed wording around the
  values the template interpolates; the model keeps these values, in the template's order.
\<close>

datatype arg = Str string | Num jsnum | Idx nat

record entry =
  code :: code_name
  message :: "arg list"

record report =
  errors :: "entry list"
  warnings :: "entry list"

definition pushError :: "entry list \<Rightarrow> code_name \<Rightarrow> arg list \<Rightarrow> bool \<times> entry list" where
  "pushError lst c m =
     (if MAX_ERRORS \<le> length lst then (True, lst)
      else (MAX_ERRORS \<le> length (lst @ [\<lparr>code = c, message = m\<rparr>]),
            lst @ [\<lparr>code = c, message = m\<rparr>]))"

definition pushWarning :: "entry list \<Rightarrow> code_name \<Rightarrow> arg list \<Rightarrow> entry list" where
  "pushWarning lst c m = lst @ [\<lparr>code = c, message = m\<rparr>]"

text \<open>
  The body of \<open>validateFloorData\<close> either returns the report or goes on to its next
  statement.
\<close>

datatype 'a flow = Return report | Continue 'a

fun and_then :: "'a flow \<Rightarrow> ('a \<Rightarrow> 'b flow) \<Rightarrow> 'b flow" where
  "and_then (Return r) f = Return r"
| "and_then (Continue a) f = f a"

text \<open>\<open>limitReached = pushError(errors, c, m); if (limitReached) return {errors, warnings};\<close>\<close>

definition error_step :: "code_name \<Rightarrow> arg list \<Rightarrow> report \<Rightarrow> report flow" where
  "error_step c m r =
     (case pushError (errors r) c m of
        (limitReached, es) \<Rightarrow>
          if limitReached then Return (r\<lparr>errors := es\<rparr>) else Continue (r\<lparr>errors := es\<rparr>))"

definition warning_step :: "code_name \<Rightarrow> arg list \<Rightarrow> report \<Rightarrow> report" where
  "warning_step c m r = r\<lparr>warnings := pushWarning (warnings r) c m\<rparr>"

text \<open>A \<open>for\<close> loop whose body may return.\<close>

fun for_each :: "('a \<Rightarrow> report \<Rightarrow> report flow) \<Rightarrow> 'a list \<Rightarrow> report \<Rightarrow> report flow" where
  "for_each body [] r = Continue r"
| "for_each body (x # xs) r =
     (case body x r of Return r' \<Rightarrow> Return r' | Continue r' \<Rightarrow> for_each body xs r')"

text \<open>The required keys: each key with whether its value is \<open>undefined\<close> or \<open>null\<close>.\<close>

definition check_required :: "string \<times> bool \<Rightarrow> report \<Rightarrow> report flow" where
  "check_required kv r =
     (if snd kv then error_step E_MISSING_KEY [Str (fst kv)] r else Continue r)"

text \<open>The scan of the node ids, with the set of ids seen and the index.\<close>

fun check_node_ids :: "(jsnum \<times> node) list \<Rightarrow> jsnum set \<Rightarrow> nat \<Rightarrow> report \<Rightarrow> report flow" where
  "check_node_ids [] seenNodeIds idx r = Continue r"
| "check_node_ids ((i, n) # rest) seenNodeIds idx r =
     (case (if i \<in> seenNodeIds then error_step E_NODE_DUPLICATE [Idx idx, Num i] r
            else Continue r) of
        Return r' \<Rightarrow> Return r'
      | Continue r' \<Rightarrow> check_node_ids rest (insert i seenNodeIds) (idx + 1) r')"

text \<open>The body of the loop over the lines, and the loop.\<close>

definition check_line ::
  "(jsnum, node) jsmap \<Rightarrow> jsnum set \<Rightarrow> nat \<Rightarrow> line \<Rightarrow> report \<Rightarrow> report flow" where
  "check_line nm seenLineIds i l r =
     and_then (if line_id l \<in> seenLineIds
               then error_step E_LINE_DUPLICATE [Idx i, Num (line_id l)] r else Continue r)
     (\<lambda>r. and_then (if \<not> map_has nm (nodeI l)
                     then error_step E_LINE_NODE_UNDEF [Idx i, Num (nodeI l)] r else Continue r)
     (\<lambda>r. and_then (if \<not> map_has nm (nodeJ l)
                     then error_step E_LINE_NODE_UNDEF [Idx i, Num (nodeJ l)] r else Continue r)
     (\<lambda>r. if js_seq (nodeI l) (nodeJ l)
           then error_step E_LINE_SELF_LOOP [Idx i, Num (line_id l), Num (nodeI l)] r
           else Continue r)))"

fun check_lines ::
  "(jsnum, node) jsmap \<Rightarrow> line list \<Rightarrow> jsnum set \<Rightarrow> nat \<Rightarrow> report \<Rightarrow> report flow" where
  "check_lines nm [] seenLineIds i r = Continue r"
| "check_lines nm (l # ls) seenLineIds i r =
     (case check_line nm seenLineIds i l r of
        Return r' \<Rightarrow> Return r'
      | Continue r' \<Rightarrow> check_lines nm ls (insert (line_id l) seenLineIds) (i + 1) r')"

text \<open>The body of the loop over the frequencies.\<close>

definition check_freq :: "jsnum \<times> jsnum \<Rightarrow> report \<Rightarrow> report flow" where
  "check_freq e r =
     (case e of (modeNum, freq) \<Rightarrow>
        and_then
          (if js_isNaN freq then error_step E_FREQ_NAN [Num modeNum, Num freq] r
           else if \<not> js_isFinite freq then error_step E_FREQ_INFINITY [Num modeNum, Num freq] r
           else if js_le freq (Fin 0) then error_step E_FREQ_NON_POSITIVE [Num modeNum, Num freq] r
           else Continue r)
          (\<lambda>r. Continue (if js_isFinite freq \<and> js_gt freq (Fin 30)
                          then warning_step W_FREQ_HIGH [Num modeNum, Num freq] r else r)))"

text \<open>The two loops that compare the mode numbers of \<open>modes\<close> and \<open>freqHz\<close>.\<close>

definition check_mode_has_freq :: "(jsnum, jsnum) jsmap \<Rightarrow> jsnum \<Rightarrow> report \<Rightarrow> report flow" where
  "check_mode_has_freq fm modeNum r =
     (if \<not> map_has fm modeNum then error_step E_MODE_FREQ_MISMATCH [Str ''modes'', Num modeNum] r
      else Continue r)"

definition check_freq_has_mode ::
  "(jsnum, (jsnum, jsnum) jsmap) jsmap \<Rightarrow> jsnum \<Rightarrow> report \<Rightarrow> report flow" where
  "check_freq_has_mode mm modeNum r =
     (if \<not> map_has mm modeNum then error_step E_MODE_FREQ_MISMATCH [Str ''freqHz'', Num modeNum] r
      else Continue r)"

text \<open>The loop over one mode shape, with the flag \<open>allZero\<close>.\<close>

fun check_uz ::
  "(jsnum, node) jsmap \<Rightarrow> jsnum \<Rightarrow> (jsnum \<times> jsnum) list \<Rightarrow> bool \<Rightarrow> report
    \<Rightarrow> (bool \<times> report) flow" where
  "check_uz nm modeNum [] allZero r = Continue (allZero, r)"
| "check_uz nm modeNum ((nodeId, uz) # rest) allZero r =
     (case (if \<not> map_has nm nodeId
            then error_step E_MODE_NODE_UNDEF [Num modeNum, Num nodeId] r else Continue r) of
        Return r' \<Rightarrow> Return r'
      | Continue r1 \<Rightarrow>
          if js_isNaN uz then
            (case error_step E_UZ_NAN [Num modeNum, Num nodeId] r1 of
               Return r' \<Rightarrow> Return r'
             | Continue r2 \<Rightarrow> check_uz nm modeNum rest allZero r2)
          else if \<not> js_isFinite uz then
            (case error_step E_UZ_INFINITY [Num modeNum, Num nodeId] r1 of
               Return r' \<Rightarrow> Return r'
             | Continue r2 \<Rightarrow> check_uz nm modeNum rest allZero r2)
          else if js_gt (js_abs uz) EPS then check_uz nm modeNum rest False r1
          else check_uz nm modeNum rest allZero r1)"

definition check_mode_shape ::
  "(jsnum, node) jsmap \<Rightarrow> jsnum \<times> (jsnum, jsnum) jsmap \<Rightarrow> report \<Rightarrow> report flow" where
  "check_mode_shape nm e r =
     (case e of (modeNum, uzMap) \<Rightarrow>
        and_then (check_uz nm modeNum uzMap True r)
          (\<lambda>(allZero, r). Continue (if allZero \<and> 0 < length uzMap
                                     then warning_step W_MODE_ALL_ZERO [Num modeNum] r else r)))"

text \<open>The warning for node elevations that differ.\<close>

definition check_z_mixed :: "(jsnum, node) jsmap \<Rightarrow> report \<Rightarrow> report" where
  "check_z_mixed nm r =
     (case map node_z (map_values nm) of
        [] \<Rightarrow> r
      | firstZ # zs \<Rightarrow>
          if list_ex (\<lambda>z. js_gt (js_abs (js_sub z firstZ)) EPS) (firstZ # zs)
          then warning_step W_NODE_Z_MIXED [] r else r)"

text \<open>The checks that run once the four keys are present.\<close>

definition validate_present ::
  "(jsnum, node) jsmap \<Rightarrow> line list \<Rightarrow> (jsnum, jsnum) jsmap
    \<Rightarrow> (jsnum, (jsnum, jsnum) jsmap) jsmap \<Rightarrow> report \<Rightarrow> report flow" where
  "validate_present nm ll fm mm r =
     and_then (if length nm = 0 then error_step E_NODES_EMPTY [] r else Continue r)
     (\<lambda>r. and_then (check_node_ids nm {} 0 r)
     (\<lambda>r. and_then (if length ll = 0 then error_step E_LINES_EMPTY [] r else Continue r)
     (\<lambda>r. and_then (check_lines nm ll {} 0 r)
     (\<lambda>r. and_then (for_each check_freq fm r)
     (\<lambda>r. and_then (for_each (check_mode_has_freq fm) (map_keys mm) r)
     (\<lambda>r. and_then (for_each (check_freq_has_mode mm) (map_keys fm) r)
     (\<lambda>r. and_then (for_each (check_mode_shape nm) mm r)
     (\<lambda>r. Continue (check_z_mixed nm r)))))))))"

fun finish :: "report flow \<Rightarrow> report" where
  "finish (Return r) = r"
| "finish (Continue r) = r"

text \<open>
  \<open>validateFloorData\<close> on its four destructured arguments; \<open>None\<close> is a value that is
  \<open>undefined\<close> or \<open>null\<close>, and a value that is present is a \<open>Map\<close> or an array as the
  parser builds it, so the tests \<open>instanceof Map\<close> and \<open>Array.isArray\<close> hold. With the
  four present the report has no error when the checks start; the last case of the model is
  never taken.
\<close>

definition validateFloorData ::
  "(jsnum, node) jsmap option \<Rightarrow> line list option \<Rightarrow> (jsnum, jsnum) jsmap option
    \<Rightarrow> (jsnum, (jsnum, jsnum) jsmap) jsmap option \<Rightarrow> report" where
  "validateFloorData ns ls fq ms =
     finish
       (and_then
          (for_each check_required
             [(''nodes'', ns = None), (''lines'', ls = None),
              (''freqHz'', fq = None), (''modes'', ms = None)]
             \<lparr>errors = [], warnings = []\<rparr>)
          (\<lambda>r. if 0 < length (errors r) then Return r
                else
                  case (ns, ls, fq, ms) of
                    (Some nm, Some ll, Some fm, Some mm) \<Rightarrow> validate_present nm ll fm mm r
                  | _ \<Rightarrow> Return r))"

text \<open>The validator on what the parser returns, as \<open>app.js\<close> calls it.\<close>

definition validate_data :: "floor_data \<Rightarrow> report" where
  "validate_data d =
     validateFloorData (Some (nodes d)) (Some (lines d)) (Some (freqHz d)) (Some (modes d))"




section \<open>The problems of a data set\<close>


















section \<open>animation.js\<close>

definition TWO_PI :: jsnum where
  "TWO_PI = js_mul (Fin 2) (Fin pi)"

text \<open>The fields of an \<open>AnimationController\<close>: \<open>c_x\<close> is the field \<open>_x\<close> of the class.\<close>

record controller =
  c_nodes :: "(jsnum, node) jsmap"
  c_lines :: "line list"
  c_freqHz :: "(jsnum, jsnum) jsmap"
  c_modes :: "(jsnum, (jsnum, jsnum) jsmap) jsmap"
  c_lFloor :: jsnum
  c_aRef :: jsnum
  c_umaxMap :: "(jsnum, jsnum) jsmap"
  c_currentMode :: "jsnum option"
  c_scale :: jsnum
  c_speed :: jsnum
  c_time :: jsnum
  c_playing :: bool
  c_modeList :: "jsnum list"

text \<open>
  \<open>_computeFloorMetrics\<close>: the body of its loop on \<open>(minX, maxX, minY, maxY)\<close>, the
  span \<open>Math.max(rangeX, rangeY)\<close> that it assigns to \<open>_lFloor\<close> first, and the two
  fields as it leaves them, \<open>(_lFloor, _aRef)\<close>.
\<close>

definition metrics_step ::
  "node \<Rightarrow> jsnum \<times> jsnum \<times> jsnum \<times> jsnum \<Rightarrow> jsnum \<times> jsnum \<times> jsnum \<times> jsnum" where
  "metrics_step n b =
     (case b of (minX, maxX, minY, maxY) \<Rightarrow>
        (if js_lt (node_x n) minX then node_x n else minX,
         if js_gt (node_x n) maxX then node_x n else maxX,
         if js_lt (node_y n) minY then node_y n else minY,
         if js_gt (node_y n) maxY then node_y n else maxY))"

definition floor_span :: "(jsnum, node) jsmap \<Rightarrow> jsnum" where
  "floor_span nm =
     (case fold metrics_step (map_values nm) (PInf, NInf, PInf, NInf) of
        (minX, maxX, minY, maxY) \<Rightarrow>
          let rangeX = js_sub maxX minX;
              rangeY = js_sub maxY minY
          in js_max rangeX rangeY)"

definition computeFloorMetrics :: "(jsnum, node) jsmap \<Rightarrow> jsnum \<times> jsnum" where
  "computeFloorMetrics nm =
     (let lFloor = (if js_seq (floor_span nm) (Fin 0) then Fin 1 else floor_span nm)
      in (lFloor, js_div lFloor (Fin 10)))"

text \<open>The largest absolute amplitude of one mode shape, \<open>1\<close> standing for \<open>0\<close>.\<close>

definition umax_step :: "jsnum \<Rightarrow> jsnum \<Rightarrow> jsnum" where
  "umax_step uz umax = (if js_gt (js_abs uz) umax then js_abs uz else umax)"

definition umax_of :: "(jsnum, jsnum) jsmap \<Rightarrow> jsnum" where
  "umax_of modeShape =
     (let umax = fold umax_step (map_values modeShape) (Fin 0)
      in if js_seq umax (Fin 0) then Fin 1 else umax)"

definition build_umaxMap :: "(jsnum, (jsnum, jsnum) jsmap) jsmap \<Rightarrow> (jsnum, jsnum) jsmap" where
  "build_umaxMap mm = fold (\<lambda>(modeNum, modeShape) m. map_set modeNum (umax_of modeShape) m) mm []"

text \<open>
  \<open>sort((a, b) => a - b)\<close> as a stable insertion sort: \<open>a\<close> goes before \<open>b\<close> when
  \<open>a - b < 0\<close>. With a NaN among the keys the comparator is not consistent and ECMAScript
  leaves the order to the engine.
\<close>

fun insert_sorted :: "jsnum \<Rightarrow> jsnum list \<Rightarrow> jsnum list" where
  "insert_sorted a [] = [a]"
| "insert_sorted a (b # bs) =
     (if js_lt (js_sub b a) (Fin 0) then b # insert_sorted a bs else a # b # bs)"

definition sort_ascending :: "jsnum list \<Rightarrow> jsnum list" where
  "sort_ascending xs = foldr insert_sorted xs []"

text \<open>The constructor.\<close>

definition AnimationController :: "floor_data \<Rightarrow> controller" where
  "AnimationController floorData =
     (let modeList = sort_ascending (map_keys (modes floorData))
      in \<lparr>c_nodes = nodes floorData,
          c_lines = lines floorData,
          c_freqHz = freqHz floorData,
          c_modes = modes floorData,
          c_lFloor = fst (computeFloorMetrics (nodes floorData)),
          c_aRef = snd (computeFloorMetrics (nodes floorData)),
          c_umaxMap = build_umaxMap (modes floorData),
          c_currentMode = (case modeList of [] \<Rightarrow> None | m # ms \<Rightarrow> Some m),
          c_scale = Fin 1,
          c_speed = Fin 1,
          c_time = Fin 0,
          c_playing = False,
          c_modeList = modeList\<rparr>)"

text \<open>The methods: a method that assigns fields is a function from state to state.\<close>

definition setMode :: "jsnum \<Rightarrow> controller \<Rightarrow> controller" where
  "setMode modeNum c = c\<lparr>c_currentMode := Some modeNum, c_time := Fin 0, c_playing := False\<rparr>"

definition play :: "controller \<Rightarrow> controller" where
  "play c = (if c_currentMode c \<noteq> None then c\<lparr>c_playing := True\<rparr> else c)"

definition stop :: "controller \<Rightarrow> controller" where
  "stop c = c\<lparr>c_playing := False\<rparr>"

definition setScale :: "jsnum \<Rightarrow> controller \<Rightarrow> controller" where
  "setScale s c = c\<lparr>c_scale := js_max (Fin 0.5) (js_min (Fin 3.0) s)\<rparr>"

definition getTime :: "controller \<Rightarrow> jsnum" where
  "getTime c = c_time c"

definition isPlaying :: "controller \<Rightarrow> bool" where
  "isPlaying c = c_playing c"

definition getDisplacedZ :: "jsnum \<Rightarrow> controller \<Rightarrow> jsnum" where
  "getDisplacedZ nodeId c =
     (case map_get (c_nodes c) nodeId of
        None \<Rightarrow> Fin 0
      | Some n \<Rightarrow>
          (case c_currentMode c of
             None \<Rightarrow> node_z n
           | Some m \<Rightarrow>
               (case map_get (c_modes c) m of
                  None \<Rightarrow> node_z n
                | Some modeShape \<Rightarrow>
                    let uz_im = (if map_has modeShape nodeId
                                 then num_or_undefined (map_get modeShape nodeId) else Fin 0.0);
                        umaxM = num_or_undefined (map_get (c_umaxMap c) m);
                        freqM = (case map_get (c_freqHz c) m of
                                   None \<Rightarrow> Fin 0
                                 | Some f \<Rightarrow> if js_truthy f then f else Fin 0);
                        u_i = js_mul (js_mul (js_mul (c_scale c) (c_aRef c)) (js_div uz_im umaxM))
                                (js_sin (js_mul (js_mul TWO_PI freqM) (c_time c)))
                    in js_add (node_z n) u_i)))"

definition setSpeed :: "jsnum \<Rightarrow> controller \<Rightarrow> controller" where
  "setSpeed v c = c\<lparr>c_speed := js_max (Fin 0.2) (js_min (Fin 2.0) v)\<rparr>"

definition getSpeed :: "controller \<Rightarrow> jsnum" where
  "getSpeed c = c_speed c"

definition update :: "jsnum \<Rightarrow> controller \<Rightarrow> controller" where
  "update deltaTime c =
     (if c_playing c then c\<lparr>c_time := js_add (c_time c) (js_mul deltaTime (c_speed c))\<rparr> else c)"

definition getFreqHz :: "jsnum option \<Rightarrow> controller \<Rightarrow> jsnum" where
  "getFreqHz modeNum c =
     (case (case modeNum of None \<Rightarrow> c_currentMode c | Some m \<Rightarrow> Some m) of
        None \<Rightarrow> Fin 0
      | Some m \<Rightarrow>
          (case map_get (c_freqHz c) m of
             None \<Rightarrow> Fin 0
           | Some f \<Rightarrow> if js_truthy f then f else Fin 0))"

definition getCurrentMode :: "controller \<Rightarrow> jsnum option" where
  "getCurrentMode c = c_currentMode c"

definition getModeList :: "controller \<Rightarrow> jsnum list" where
  "getModeList c = c_modeList c"

text \<open>
  A call of a method on the object: what it returns and the state it leaves. A sequence of
  calls threads the state.
\<close>

datatype invocation =
    SetMode jsnum | Play | Stop | SetScale jsnum | GetTime | IsPlaying | GetDisplacedZ jsnum
  | SetSpeed jsnum | GetSpeed | Update jsnum | GetFreqHz "jsnum option" | GetCurrentMode
  | GetModeList

datatype result =
    Undefined | NumResult jsnum | BoolResult bool | ModeResult "jsnum option"
  | ListResult "jsnum list"

fun call :: "invocation \<Rightarrow> controller \<Rightarrow> result \<times> controller" where
  "call (SetMode m) c = (Undefined, setMode m c)"
| "call Play c = (Undefined, play c)"
| "call Stop c = (Undefined, stop c)"
| "call (SetScale s) c = (Undefined, setScale s c)"
| "call GetTime c = (NumResult (getTime c), c)"
| "call IsPlaying c = (BoolResult (isPlaying c), c)"
| "call (GetDisplacedZ k) c = (NumResult (getDisplacedZ k c), c)"
| "call (SetSpeed v) c = (Undefined, setSpeed v c)"
| "call GetSpeed c = (NumResult (getSpeed c), c)"
| "call (Update dt) c = (Undefined, update dt c)"
| "call (GetFreqHz m) c = (NumResult (getFreqHz m c), c)"
| "call GetCurrentMode c = (ModeResult (getCurrentMode c), c)"
| "call GetModeList c = (ListResult (getModeList c), c)"

fun calls :: "invocation list \<Rightarrow> controller \<Rightarrow> result list \<times> controller" where
  "calls [] c = ([], c)"
| "calls (m # ms) c =
     (case call m c of (r, c') \<Rightarrow> (case calls ms c' of (rs, c'') \<Rightarrow> (r # rs, c'')))"

text \<open>The numeric argument of a method, when it takes one.\<close>

fun method_arg :: "invocation \<Rightarrow> jsnum option" where
  "method_arg (SetMode m) = Some m"
| "method_arg (SetScale s) = Some s"
| "method_arg (SetSpeed v) = Some v"
| "method_arg (Update dt) = Some dt"
| "method_arg (GetDisplacedZ k) = Some k"
| "method_arg (GetFreqHz m) = m"
| "method_arg m = None"

text \<open>
  The states the object takes: the one the constructor leaves, and the one any method
  leaves when called with a finite number in a state the object takes.
\<close>

definition finite_arg :: "invocation \<Rightarrow> bool" where
  "finite_arg m = (case method_arg m of None \<Rightarrow> True | Some a \<Rightarrow> js_isFinite a)"

inductive reachable :: "floor_data \<Rightarrow> controller \<Rightarrow> bool" where
  constructed: "reachable d (AnimationController d)"
| called: "reachable d c \<Longrightarrow> finite_arg m \<Longrightarrow> reachable d (snd (call m c))"

section \<open>Example data\<close>

text \<open>The sample of the README, as \<open>JSON.parse\<close> returns it.\<close>

definition sample_json :: json where
  "sample_json =
     JObj [(''meta'', JObj [(''title'', JStr ''sample floor''), (''lengthUnit'', JStr ''m''),
                            (''modeUnit'', JStr ''normalized'')]),
           (''nodes'', JArr [JObj [(''id'', JNum (Fin 1)), (''x'', JNum (Fin 0)),
                                   (''y'', JNum (Fin 0)), (''z'', JNum (Fin 0))],
                             JObj [(''id'', JNum (Fin 2)), (''x'', JNum (Fin 6)),
                                   (''y'', JNum (Fin 0)), (''z'', JNum (Fin 0))],
                             JObj [(''id'', JNum (Fin 3)), (''x'', JNum (Fin 6)),
                                   (''y'', JNum (Fin 4)), (''z'', JNum (Fin 0))],
                             JObj [(''id'', JNum (Fin 4)), (''x'', JNum (Fin 0)),
                                   (''y'', JNum (Fin 4)), (''z'', JNum (Fin 0))]]),
           (''lines'', JArr [JObj [(''id'', JNum (Fin 1)), (''nodeI'', JNum (Fin 1)),
                                   (''nodeJ'', JNum (Fin 2))],
                             JObj [(''id'', JNum (Fin 2)), (''nodeI'', JNum (Fin 2)),
                                   (''nodeJ'', JNum (Fin 3))],
                             JObj [(''id'', JNum (Fin 3)), (''nodeI'', JNum (Fin 3)),
                                   (''nodeJ'', JNum (Fin 4))],
                             JObj [(''id'', JNum (Fin 4)), (''nodeI'', JNum (Fin 4)),
                                   (''nodeJ'', JNum (Fin 1))]]),
           (''freqHz'', JObj [(''1'', JNum (Fin 5.2)), (''2'', JNum (Fin 8.7))]),
           (''modes'',
            JObj [(''1'', JObj [(''1'', JNum (Fin 0)), (''2'', JNum (Fin 0.4)),
                                (''3'', JNum (Fin 1)), (''4'', JNum (Fin 0.5))]),
                  (''2'', JObj [(''1'', JNum (Fin 1)), (''2'', JNum (Fin 0.2)),
                                (''3'', JNum (Fin (- 0.9))), (''4'', JNum (Fin (- 0.1)))])])]"

text \<open>The same sample as the parser returns it.\<close>

definition sample_data :: floor_data where
  "sample_data =
     \<lparr>meta = JObj [(''title'', JStr ''sample floor''), (''lengthUnit'', JStr ''m''),
                   (''modeUnit'', JStr ''normalized'')],
      nodes =
        [(Fin 1, \<lparr>node_id = Fin 1, node_x = Fin 0, node_y = Fin 0, node_z = Fin 0\<rparr>),
         (Fin 2, \<lparr>node_id = Fin 2, node_x = Fin 6, node_y = Fin 0, node_z = Fin 0\<rparr>),
         (Fin 3, \<lparr>node_id = Fin 3, node_x = Fin 6, node_y = Fin 4, node_z = Fin 0\<rparr>),
         (Fin 4, \<lparr>node_id = Fin 4, node_x = Fin 0, node_y = Fin 4, node_z = Fin 0\<rparr>)],
      nodeIdCounts = [(Fin 1, 1), (Fin 2, 1), (Fin 3, 1), (Fin 4, 1)],
      lines =
        [\<lparr>line_id = Fin 1, nodeI = Fin 1, nodeJ = Fin 2\<rparr>,
         \<lparr>line_id = Fin 2, nodeI = Fin 2, nodeJ = Fin 3\<rparr>,
         \<lparr>line_id = Fin 3, nodeI = Fin 3, nodeJ = Fin 4\<rparr>,
         \<lparr>line_id = Fin 4, nodeI = Fin 4, nodeJ = Fin 1\<rparr>],
      freqHz = [(Fin 1, Fin 5.2), (Fin 2, Fin 8.7)],
      modes =
        [(Fin 1, [(Fin 1, Fin 0), (Fin 2, Fin 0.4), (Fin 3, Fin 1), (Fin 4, Fin 0.5)]),
         (Fin 2, [(Fin 1, Fin 1), (Fin 2, Fin 0.2), (Fin 3, Fin (- 0.9)), (Fin 4, Fin (- 0.1))])]\<rparr>"

text \<open>The controller of the sample after \<open>play()\<close> and one second of \<open>update\<close>.\<close>

definition sample_playing :: controller where
  "sample_playing = snd (calls [Play, Update (Fin 1)] (AnimationController sample_data))"

text \<open>The controller of the sample after \<open>setScale(10)\<close> and \<open>setSpeed(0)\<close>.\<close>

definition sample_clamped :: controller where
  "sample_clamped =
     snd (calls [SetScale (Fin 10), SetSpeed (Fin 0)] (AnimationController sample_data))"

text \<open>
  The sample with \<open>n\<close> modes \<open>1, \<dots>, n\<close> in place of its two, each of \<open>31\<close> Hz and
  with the same shape.
\<close>

definition high_freq_data :: "nat \<Rightarrow> floor_data" where
  "high_freq_data n =
     sample_data
       \<lparr>freqHz := map (\<lambda>i. (Fin (real i), Fin 31)) [1..<Suc n],
        modes := map (\<lambda>i. (Fin (real i), [(Fin 1, Fin 1), (Fin 2, Fin 0), (Fin 3, Fin 0),
                                           (Fin 4, Fin 0)])) [1..<Suc n]\<rparr>"



text \<open>
  The two factors of the displacement that \<open>getDisplacedZ\<close> computes for a node in the
  mode \<open>m\<close> of shape \<open>modeShape\<close>: the amplitude \<open>S * A_ref * (uz / Umax)\<close>, and the
  rate \<open>2\<pi> f\<close> that multiplies the time. The factors are finite in a state when its mode
  is \<open>null\<close> or has no shape, where nothing is computed, or when both are finite numbers.
\<close>

definition amplitude :: "jsnum \<Rightarrow> jsnum \<Rightarrow> (jsnum, jsnum) jsmap \<Rightarrow> controller \<Rightarrow> jsnum" where
  "amplitude nodeId m modeShape c =
     js_mul (js_mul (c_scale c) (c_aRef c))
       (js_div (if map_has modeShape nodeId
                then num_or_undefined (map_get modeShape nodeId) else Fin 0.0)
          (num_or_undefined (map_get (c_umaxMap c) m)))"

definition angular_rate :: "jsnum \<Rightarrow> controller \<Rightarrow> jsnum" where
  "angular_rate m c =
     js_mul TWO_PI
       (case map_get (c_freqHz c) m of
          None \<Rightarrow> Fin 0
        | Some f \<Rightarrow> if js_truthy f then f else Fin 0)"

definition finite_factors :: "jsnum \<Rightarrow> controller \<Rightarrow> bool" where
  "finite_factors nodeId c =
     (case c_currentMode c of
        None \<Rightarrow> True
      | Some m \<Rightarrow>
          (case map_get (c_modes c) m of
             None \<Rightarrow> True
           | Some modeShape \<Rightarrow>
               js_isFinite (amplitude nodeId m modeShape c) \<and> js_isFinite (angular_rate m c)))"

text \<open>
  Two nodes, the first at \<open>x = Infinity\<close> (what \<open>JSON.parse\<close> gives for a number such
  as \<open>1e999\<close>), one line and one mode that names the first node only; and what the parser
  returns for this source.
\<close>

definition inf_coord_json :: json where
  "inf_coord_json =
     JObj [(''nodes'', JArr [JObj [(''id'', JNum (Fin 1)), (''x'', JNum PInf),
                                   (''y'', JNum (Fin 0)), (''z'', JNum (Fin 0))],
                             JObj [(''id'', JNum (Fin 2)), (''x'', JNum (Fin 0)),
                                   (''y'', JNum (Fin 0)), (''z'', JNum (Fin 0))]]),
           (''lines'', JArr [JObj [(''id'', JNum (Fin 1)), (''nodeI'', JNum (Fin 1)),
                                   (''nodeJ'', JNum (Fin 2))]]),
           (''freqHz'', JObj [(''1'', JNum (Fin 5))]),
           (''modes'', JObj [(''1'', JObj [(''1'', JNum (Fin 1))])])]"

definition inf_coord_data :: floor_data where
  "inf_coord_data =
     \<lparr>meta = JObj [],
      nodes =
        [(Fin 1, \<lparr>node_id = Fin 1, node_x = PInf, node_y = Fin 0, node_z = Fin 0\<rparr>),
         (Fin 2, \<lparr>node_id = Fin 2, node_x = Fin 0, node_y = Fin 0, node_z = Fin 0\<rparr>)],
      nodeIdCounts = [(Fin 1, 1), (Fin 2, 1)],
      lines = [\<lparr>line_id = Fin 1, nodeI = Fin 1, nodeJ = Fin 2\<rparr>],
      freqHz = [(Fin 1, Fin 5)],
      modes = [(Fin 1, [(Fin 1, Fin 1), (Fin 2, Fin 0)])]\<rparr>"

text \<open>The nodes with \<open>dx\<close> added to every \<open>x\<close> and \<open>dy\<close> to every \<open>y\<close>.\<close>

definition translate_nodes :: "real \<Rightarrow> real \<Rightarrow> (jsnum, node) jsmap \<Rightarrow> (jsnum, node) jsmap" where
  "translate_nodes dx dy nm =
     map (\<lambda>(k, n). (k, n\<lparr>node_x := js_add (node_x n) (Fin dx),
                           node_y := js_add (node_y n) (Fin dy)\<rparr>)) nm"

text \<open>
  The addition of \<open>d\<close> to a coordinate is exact when the sum is a number of the format, so
  that nothing is rounded away; an infinite or NaN coordinate stays as it is. A translation
  of the nodes is exact when it is so on every coordinate.
\<close>

definition exact_shift :: "real \<Rightarrow> jsnum \<Rightarrow> bool" where
  "exact_shift d x = (case x of Fin a \<Rightarrow> to_double (a + d) = Fin (a + d) | _ \<Rightarrow> True)"

definition exact_translation :: "real \<Rightarrow> real \<Rightarrow> (jsnum, node) jsmap \<Rightarrow> bool" where
  "exact_translation dx dy nm =
     list_all (\<lambda>n. exact_shift dx (node_x n) \<and> exact_shift dy (node_y n)) (map_values nm)"

text \<open>The \<open>Map\<close> that the calls \<open>set(k, v)\<close> build, one for each entry in turn.\<close>

definition insert_all :: "('k \<times> 'v) list \<Rightarrow> ('k, 'v) jsmap" where
  "insert_all es = fold (\<lambda>(k, v) m. map_set k v m) es []"

text \<open>Two nodes \<open>6\<close> apart along \<open>x\<close>.\<close>

definition span_nodes :: "(jsnum, node) jsmap" where
  "span_nodes =
     [(Fin 1, \<lparr>node_id = Fin 1, node_x = Fin 0, node_y = Fin 0, node_z = Fin 0\<rparr>),
      (Fin 2, \<lparr>node_id = Fin 2, node_x = Fin 6, node_y = Fin 0, node_z = Fin 0\<rparr>)]"

text \<open>Two nodes at the same place of the plane.\<close>

definition colocated_nodes :: "(jsnum, node) jsmap" where
  "colocated_nodes =
     [(Fin 1, \<lparr>node_id = Fin 1, node_x = Fin 2, node_y = Fin 2, node_z = Fin 0\<rparr>),
      (Fin 2, \<lparr>node_id = Fin 2, node_x = Fin 2, node_y = Fin 2, node_z = Fin 1\<rparr>)]"

text \<open>
  Whether the source gives an amplitude for node \<open>k\<close> in mode \<open>m\<close>: some entry of
  \<open>data.modes\<close> whose key converts to \<open>m\<close> is an object with an entry whose key converts
  to \<open>k\<close>.
\<close>

definition source_gives_uz :: "(json \<Rightarrow> jsnum) \<Rightarrow> json \<Rightarrow> jsnum \<Rightarrow> jsnum \<Rightarrow> bool" where
  "source_gives_uz sn data m k =
     (case get_prop data ''modes'' of
        None \<Rightarrow> False
      | Some ms \<Rightarrow>
          list_ex (\<lambda>(modeKey, modeVal).
                     js_Number sn (Some (JStr modeKey)) = m \<and> is_object modeVal
                     \<and> list_ex (\<lambda>(nodeKey, uzVal). js_Number sn (Some (JStr nodeKey)) = k)
                          (entries modeVal))
            (entries ms))"

text \<open>
  Two conversions for the examples. The first is what \<open>Number\<close> gives on a string of
  decimal digits, and NaN on every other value; the second also reads a minus sign before
  the digits.
\<close>

definition digits_number :: "json \<Rightarrow> jsnum" where
  "digits_number j =
     (case j of
        JStr s \<Rightarrow> (case digits_value s 0 of None \<Rightarrow> NaN | Some v \<Rightarrow> to_double (real v))
      | _ \<Rightarrow> NaN)"

definition signed_number :: "json \<Rightarrow> jsnum" where
  "signed_number j =
     (case j of
        JStr (c # s) \<Rightarrow>
          if c = CHR ''-'' \<and> s \<noteq> [] then js_neg (digits_number (JStr s)) else digits_number j
      | _ \<Rightarrow> digits_number j)"

text \<open>
  A source in snake case with three nodes and one mode, whose shape names node \<open>1\<close> and
  has the key \<open>-2\<close>; and what the parser returns for it.
\<close>

definition kebab_json :: json where
  "kebab_json =
     JObj [(''nodes'', JArr [JObj [(''id'', JNum (Fin 1)), (''x'', JNum (Fin 0)),
                                   (''y'', JNum (Fin 0)), (''z'', JNum (Fin 0))],
                             JObj [(''id'', JNum (Fin 2)), (''x'', JNum (Fin 6)),
                                   (''y'', JNum (Fin 0)), (''z'', JNum (Fin 0))],
                             JObj [(''id'', JNum (Fin 3)), (''x'', JNum (Fin 6)),
                                   (''y'', JNum (Fin 4)), (''z'', JNum (Fin 0))]]),
           (''lines'', JArr [JObj [(''id'', JNum (Fin 1)), (''node_i'', JNum (Fin 1)),
                                   (''node_j'', JNum (Fin 2))]]),
           (''freq_hz'', JObj [(''1'', JNum (Fin 5))]),
           (''modes'', JObj [(''1'', JObj [(''1'', JNum (Fin 1)), (''-2'', JNum (Fin 0.5))])])]"

definition kebab_data :: floor_data where
  "kebab_data =
     \<lparr>meta = JObj [],
      nodes =
        [(Fin 1, \<lparr>node_id = Fin 1, node_x = Fin 0, node_y = Fin 0, node_z = Fin 0\<rparr>),
         (Fin 2, \<lparr>node_id = Fin 2, node_x = Fin 6, node_y = Fin 0, node_z = Fin 0\<rparr>),
         (Fin 3, \<lparr>node_id = Fin 3, node_x = Fin 6, node_y = Fin 4, node_z = Fin 0\<rparr>)],
      nodeIdCounts = [(Fin 1, 1), (Fin 2, 1), (Fin 3, 1)],
      lines = [\<lparr>line_id = Fin 1, nodeI = Fin 1, nodeJ = Fin 2\<rparr>],
      freqHz = [(Fin 1, Fin 5)],
      modes = [(Fin 1, [(Fin 1, Fin 1), (Fin 2, Fin 0.5), (Fin 3, Fin 0)])]\<rparr>"

text \<open>
  A source with two nodes of id \<open>1\<close>, the second node without \<open>z\<close>, and one mode that
  names node \<open>1\<close> only; and what the parser returns for it.
\<close>

definition dup_json :: json where
  "dup_json =
     JObj [(''nodes'', JArr [JObj [(''id'', JNum (Fin 1)), (''x'', JNum (Fin 0)),
                                   (''y'', JNum (Fin 0)), (''z'', JNum (Fin 0))],
                             JObj [(''id'', JNum (Fin 2)), (''x'', JNum (Fin 6)),
                                   (''y'', JNum (Fin 0))],
                             JObj [(''id'', JNum (Fin 1)), (''x'', JNum (Fin 6)),
                                   (''y'', JNum (Fin 4)), (''z'', JNum (Fin 1))]]),
           (''lines'', JArr [JObj [(''id'', JNum (Fin 1)), (''nodeI'', JNum (Fin 1)),
                                   (''nodeJ'', JNum (Fin 2))]]),
           (''freqHz'', JObj [(''1'', JNum (Fin 5.2))]),
           (''modes'', JObj [(''1'', JObj [(''1'', JNum (Fin 1))])])]"

definition dup_data :: floor_data where
  "dup_data =
     \<lparr>meta = JObj [],
      nodes =
        [(Fin 1, \<lparr>node_id = Fin 1, node_x = Fin 6, node_y = Fin 4, node_z = Fin 1\<rparr>),
         (Fin 2, \<lparr>node_id = Fin 2, node_x = Fin 6, node_y = Fin 0, node_z = Fin 0\<rparr>)],
      nodeIdCounts = [(Fin 1, 2), (Fin 2, 1)],
      lines = [\<lparr>line_id = Fin 1, nodeI = Fin 1, nodeJ = Fin 2\<rparr>],
      freqHz = [(Fin 1, Fin 5.2)],
      modes = [(Fin 1, [(Fin 1, Fin 1), (Fin 2, Fin 0)])]\<rparr>"

text \<open>
  A source whose first node has the elevation \<open>"high"\<close>, which \<open>Number\<close> converts to
  NaN; and what the parser returns for it.
\<close>

definition nan_z_json :: json where
  "nan_z_json =
     JObj [(''nodes'', JArr [JObj [(''id'', JNum (Fin 1)), (''x'', JNum (Fin 0)),
                                   (''y'', JNum (Fin 0)), (''z'', JStr ''high'')],
                             JObj [(''id'', JNum (Fin 2)), (''x'', JNum (Fin 6)),
                                   (''y'', JNum (Fin 0)), (''z'', JNum (Fin 0))]]),
           (''lines'', JArr [JObj [(''id'', JNum (Fin 1)), (''nodeI'', JNum (Fin 1)),
                                   (''nodeJ'', JNum (Fin 2))]]),
           (''freqHz'', JObj [(''1'', JNum (Fin 5))]),
           (''modes'', JObj [(''1'', JObj [(''1'', JNum (Fin 1))])])]"

definition nan_z_data :: floor_data where
  "nan_z_data =
     \<lparr>meta = JObj [],
      nodes =
        [(Fin 1, \<lparr>node_id = Fin 1, node_x = Fin 0, node_y = Fin 0, node_z = NaN\<rparr>),
         (Fin 2, \<lparr>node_id = Fin 2, node_x = Fin 6, node_y = Fin 0, node_z = Fin 0\<rparr>)],
      nodeIdCounts = [(Fin 1, 1), (Fin 2, 1)],
      lines = [\<lparr>line_id = Fin 1, nodeI = Fin 1, nodeJ = Fin 2\<rparr>],
      freqHz = [(Fin 1, Fin 5)],
      modes = [(Fin 1, [(Fin 1, Fin 1), (Fin 2, Fin 0)])]\<rparr>"

text \<open>Reports with no \<open>E_NODE_DUPLICATE\<close> among their errors, and the flows that hold one.\<close>

definition no_dup :: "report \<Rightarrow> bool" where
  "no_dup r = list_all (\<lambda>e. code e \<noteq> E_NODE_DUPLICATE) (errors r)"

fun flow_no_dup :: "report flow \<Rightarrow> bool" where
  "flow_no_dup (Return r) = no_dup r"
| "flow_no_dup (Continue r) = no_dup r"

fun flow_no_dup2 :: "(bool \<times> report) flow \<Rightarrow> bool" where
  "flow_no_dup2 (Return r) = no_dup r"
| "flow_no_dup2 (Continue br) = no_dup (snd br)"

section \<open>Rounding to binary64\<close>

lemma round_even_int [simp]: "round_even (of_int n) = n"
  by (simp add: round_even_def)

lemma round_even_bounds: "\<lfloor>r\<rfloor> \<le> round_even r" "round_even r \<le> \<lfloor>r\<rfloor> + 1"
  by (simp_all add: round_even_def)

lemma round_even_mono: "r \<le> s \<Longrightarrow> round_even r \<le> round_even s"
proof -
  assume rs: "r \<le> s"
  then have fl: "\<lfloor>r\<rfloor> \<le> \<lfloor>s\<rfloor>" by (rule floor_mono)
  show ?thesis
  proof (cases "\<lfloor>r\<rfloor> = \<lfloor>s\<rfloor>")
    case True
    with rs show ?thesis
      by (auto simp: round_even_def)
  next
    case False
    with fl have "\<lfloor>r\<rfloor> + 1 \<le> \<lfloor>s\<rfloor>" by simp
    with round_even_bounds(2) [of r] round_even_bounds(1) [of s] show ?thesis
      by linarith
  qed
qed

lemma round_even_le: "r \<le> of_int n \<Longrightarrow> round_even r \<le> n"
  using round_even_mono [of r "of_int n"] by simp

lemma round_even_ge: "of_int n \<le> r \<Longrightarrow> n \<le> round_even r"
  using round_even_mono [of "of_int n" r] by simp

lemma round_even_down: "of_int n \<le> r \<Longrightarrow> r < of_int n + 1 / 2 \<Longrightarrow> round_even r = n"
proof -
  assume a: "of_int n \<le> r" "r < of_int n + 1 / 2"
  then have "\<lfloor>r\<rfloor> = n" by linarith
  with a show ?thesis by (simp add: round_even_def)
qed

lemma round_even_up: "of_int n - 1 / 2 < r \<Longrightarrow> r \<le> of_int n \<Longrightarrow> round_even r = n"
proof (cases "r = of_int n")
  case True
  then show ?thesis by simp
next
  case False
  assume a: "of_int n - 1 / 2 < r" "r \<le> of_int n"
  with False have "\<lfloor>r\<rfloor> = n - 1" by linarith
  with a False show ?thesis by (simp add: round_even_def)
qed

lemma quantum_pos [simp]: "0 < quantum x" "0 \<le> quantum x" "quantum x \<noteq> 0"
  by (simp_all add: quantum_def)

lemma log_bracket:
  assumes "x \<noteq> 0"
  shows "2 powi \<lfloor>log 2 \<bar>x\<bar>\<rfloor> \<le> \<bar>x\<bar>" "\<bar>x\<bar> < 2 powi (\<lfloor>log 2 \<bar>x\<bar>\<rfloor> + 1)"
proof -
  from assms have "0 < \<bar>x\<bar>" by simp
  then have "2 powr \<lfloor>log 2 \<bar>x\<bar>\<rfloor> \<le> \<bar>x\<bar> \<and> \<bar>x\<bar> < 2 powr (\<lfloor>log 2 \<bar>x\<bar>\<rfloor> + 1)"
    using floor_log_eq_powr_iff [of "\<bar>x\<bar>" 2 "\<lfloor>log 2 \<bar>x\<bar>\<rfloor>"] by simp
  then show "2 powi \<lfloor>log 2 \<bar>x\<bar>\<rfloor> \<le> \<bar>x\<bar>" "\<bar>x\<bar> < 2 powi (\<lfloor>log 2 \<bar>x\<bar>\<rfloor> + 1)"
    using powr_real_of_int' [of 2 "\<lfloor>log 2 \<bar>x\<bar>\<rfloor>"] powr_real_of_int' [of 2 "\<lfloor>log 2 \<bar>x\<bar>\<rfloor> + 1"]
    by simp_all
qed

lemma log_floorI:
  assumes "2 powi e \<le> \<bar>x\<bar>" "\<bar>x\<bar> < 2 powi (e + 1)"
  shows "\<lfloor>log 2 \<bar>x\<bar>\<rfloor> = e"
proof -
  have "0 < (2::real) powi e" by simp
  with assms(1) have "0 < \<bar>x\<bar>" by linarith
  moreover have "2 powr e \<le> \<bar>x\<bar>" "\<bar>x\<bar> < 2 powr (e + 1)"
    using assms powr_real_of_int' [of 2 e] powr_real_of_int' [of 2 "e + 1"] by simp_all
  ultimately show ?thesis
    using floor_log_eq_powr_iff [of "\<bar>x\<bar>" 2 e] by simp
qed


lemma round_even_minus: "round_even (- r) = - round_even r"
proof (cases "r = of_int \<lfloor>r\<rfloor>")
  case True
  then obtain n where "r = of_int n" ..
  then have "- r = of_int (- n)" by simp
  then show ?thesis using \<open>r = of_int n\<close> round_even_int by metis
next
  case False
  then have fl: "\<lfloor>- r\<rfloor> = - \<lfloor>r\<rfloor> - 1"
    by (metis ceiling_altdef ceiling_def add_diff_cancel_right' minus_diff_eq 
          uminus_add_conv_diff add.inverse_inverse)
  show ?thesis
    unfolding round_even_def fl by (auto simp: field_simps)
qed

lemma binade_minus [simp]: "binade (- x) = binade x"
  by (simp add: binade_def)

lemma quantum_minus [simp]: "quantum (- x) = quantum x"
  by (simp add: quantum_def)

lemma round_real_minus: "round_real (- x) = - round_real x"
  by (simp add: round_real_def round_even_minus)

lemma round_even_zero [simp]: "round_even 0 = 0"
  using round_even_int [of 0] by simp

lemma round_real_zero [simp]: "round_real 0 = 0"
  by (simp add: round_real_def)

lemma round_real_nonneg: "0 \<le> x \<Longrightarrow> 0 \<le> round_real x"
proof -
  assume "0 \<le> x"
  then have "of_int 0 \<le> x / quantum x" by simp
  then have "0 \<le> round_even (x / quantum x)" by (rule round_even_ge)
  then show ?thesis by (simp add: round_real_def)
qed

lemma round_real_nonpos: "x \<le> 0 \<Longrightarrow> round_real x \<le> 0"
  using round_real_nonneg [of "- x"] by (simp add: round_real_minus)

lemma floor_log_le_binade: "\<lfloor>log 2 \<bar>x\<bar>\<rfloor> \<le> binade x"
  by (simp add: binade_def)

lemma round_real_upper_pos:
  assumes "0 < x"
  shows "round_real x \<le> 2 powi (binade x + 1)"
proof -
  have "x < 2 powi (\<lfloor>log 2 \<bar>x\<bar>\<rfloor> + 1)" using log_bracket(2) [of x] assms by simp
  also have "\<dots> \<le> 2 powi (binade x + 1)"
    using floor_log_le_binade [of x] by (simp add: power_int_increasing)
  finally have "x < 2 powi (binade x + 1)" .
  then have "x / quantum x < 2 powi (binade x + 1) / quantum x"
    by (simp add: divide_strict_right_mono)
  also have "2 powi (binade x + 1) / quantum x = 2 powi 53"
    by (simp add: quantum_def power_int_diff [symmetric])
  finally have "x / quantum x \<le> of_int (2 ^ 53)" by simp
  then have "round_even (x / quantum x) \<le> 2 ^ 53" by (rule round_even_le)
  then have "of_int (round_even (x / quantum x)) \<le> (2::real) ^ 53"
    by (metis of_int_le_iff of_int_numeral of_int_power)
  then have "round_real x \<le> 2 ^ 53 * quantum x"
    by (simp add: round_real_def)
  also have "2 ^ 53 * quantum x = 2 powi (binade x + 1)"
    using power_int_add [of "2::real" 53 "binade x - 52"] by (simp add: quantum_def add.commute)
  finally show ?thesis .
qed

lemma round_real_lower_pos:
  assumes "0 < x" "- 1022 \<le> \<lfloor>log 2 \<bar>x\<bar>\<rfloor>"
  shows "2 powi (binade x) \<le> round_real x"
proof -
  have b: "binade x = \<lfloor>log 2 \<bar>x\<bar>\<rfloor>" using assms(2) by (simp add: binade_def)
  have "2 powi (binade x) \<le> x" using log_bracket(1) [of x] assms(1) b by simp
  then have "2 powi (binade x) / quantum x \<le> x / quantum x"
    by (simp add: divide_right_mono)
  moreover have "2 powi (binade x) / quantum x = 2 powi 52"
    by (simp add: quantum_def power_int_diff [symmetric])
  ultimately have "of_int (2 ^ 52) \<le> x / quantum x" by simp
  then have "2 ^ 52 \<le> round_even (x / quantum x)" by (rule round_even_ge)
  then have "(2::real) ^ 52 \<le> of_int (round_even (x / quantum x))"
    by (metis of_int_le_iff of_int_numeral of_int_power)
  then have "2 ^ 52 * quantum x \<le> round_real x"
    by (simp add: round_real_def)
  moreover have "2 ^ 52 * quantum x = 2 powi (binade x)"
    using power_int_add [of "2::real" 52 "binade x - 52"] by (simp add: quantum_def)
  ultimately show ?thesis by simp
qed

lemma binade_mono:
  assumes "0 < x" "x \<le> y"
  shows "binade x \<le> binade y"
proof -
  have "log 2 \<bar>x\<bar> \<le> log 2 \<bar>y\<bar>" using assms by simp
  then have "\<lfloor>log 2 \<bar>x\<bar>\<rfloor> \<le> \<lfloor>log 2 \<bar>y\<bar>\<rfloor>" by (rule floor_mono)
  then show ?thesis by (simp add: binade_def)
qed

lemma round_real_mono_pos:
  assumes "0 < x" "x \<le> y"
  shows "round_real x \<le> round_real y"
proof (cases "binade x = binade y")
  case True
  then have q: "quantum x = quantum y" by (simp add: quantum_def)
  have "x / quantum y \<le> y / quantum y" using assms(2) by (simp add: divide_right_mono)
  then have "round_even (x / quantum y) \<le> round_even (y / quantum y)" by (rule round_even_mono)
  then show ?thesis by (simp add: round_real_def q mult_right_mono)
next
  case False
  with binade_mono [OF assms] have lt: "binade x + 1 \<le> binade y" by simp
  have "- 1022 \<le> binade x" by (simp add: binade_def)
  with lt have "- 1022 < binade y" by simp
  then have "- 1022 \<le> \<lfloor>log 2 \<bar>y\<bar>\<rfloor>" by (simp add: binade_def max_def split: if_splits)
  moreover have "0 < y" using assms by simp
  ultimately have "2 powi (binade y) \<le> round_real y" by (simp add: round_real_lower_pos)
  moreover have "round_real x \<le> 2 powi (binade x + 1)" using assms(1) by (rule round_real_upper_pos)
  moreover have "(2::real) powi (binade x + 1) \<le> 2 powi (binade y)"
    using lt by (simp add: power_int_increasing)
  ultimately show ?thesis by linarith
qed

lemma round_real_mono: "x \<le> y \<Longrightarrow> round_real x \<le> round_real y"
proof -
  assume xy: "x \<le> y"
  consider "0 < x" | "x \<le> 0" "0 \<le> y" | "y < 0" by linarith
  then show ?thesis
  proof cases
    case 1
    then show ?thesis using xy by (rule round_real_mono_pos)
  next
    case 2
    then show ?thesis using round_real_nonpos [of x] round_real_nonneg [of y] by linarith
  next
    case 3
    then have "0 < - y" "- y \<le> - x" using xy by simp_all
    then have "round_real (- y) \<le> round_real (- x)" by (rule round_real_mono_pos)
    then show ?thesis by (simp add: round_real_minus)
  qed
qed


lemma pow2_less_iff: "(2::real) powi m < 2 powi n \<longleftrightarrow> m < n"
proof
  assume a: "(2::real) powi m < 2 powi n"
  show "m < n"
  proof (rule ccontr)
    assume "\<not> m < n"
    then have "(2::real) powi n \<le> 2 powi m" by (simp add: power_int_increasing)
    with a show False by simp
  qed
next
  assume "m < n"
  then show "(2::real) powi m < 2 powi n" by (simp add: power_int_strict_increasing)
qed

lemma floor_log_less:
  assumes "x \<noteq> 0" "\<bar>x\<bar> < 2 powi n"
  shows "\<lfloor>log 2 \<bar>x\<bar>\<rfloor> < n"
proof -
  have "(2::real) powi \<lfloor>log 2 \<bar>x\<bar>\<rfloor> < 2 powi n"
    using log_bracket(1) [OF assms(1)] assms(2) by linarith
  then show ?thesis by (simp add: pow2_less_iff)
qed

lemma round_real_exact:
  assumes "\<bar>m\<bar> < 2 ^ 53" "- 1074 \<le> k"
  shows "round_real (of_int m * 2 powi k) = of_int m * 2 powi k"
proof (cases "m = 0")
  case True
  then show ?thesis by simp
next
  case False
  define x :: real where "x = of_int m * 2 powi k"
  have x0: "x \<noteq> 0" using False by (simp add: x_def)
  have "\<bar>of_int m :: real\<bar> < 2 ^ 53"
    using assms(1) by (metis of_int_abs of_int_less_iff of_int_numeral of_int_power)
  then have "\<bar>x\<bar> < 2 ^ 53 * 2 powi k"
    by (simp add: x_def abs_mult)
  also have "\<dots> = 2 powi (53 + k)"
    using power_int_add [of "2::real" 53 k] by simp
  finally have "\<lfloor>log 2 \<bar>x\<bar>\<rfloor> < 53 + k" using x0 by (simp add: floor_log_less)
  then have "binade x - 52 \<le> k" using assms(2) by (simp add: binade_def)
  then obtain j :: nat where j: "k = binade x - 52 + int j"
    by (metis zle_iff_zadd)
  have "x / quantum x = of_int m * (2 powi k / 2 powi (binade x - 52))"
    by (simp add: x_def quantum_def)
  also have "2 powi k / 2 powi (binade x - 52) = (2::real) ^ j"
    using power_int_add [of "2::real" "binade x - 52" "int j"] j by simp
  finally have "x / quantum x = of_int (m * 2 ^ j)" by simp
  then have "round_even (x / quantum x) = m * 2 ^ j" by (simp only: round_even_int)
  then have "round_real x = of_int m * (2 ^ j * quantum x)"
    by (simp add: round_real_def)
  also have "2 ^ j * quantum x = 2 powi k"
    using power_int_add [of "2::real" "binade x - 52" "int j"] j by (simp add: quantum_def)
  finally show ?thesis by (simp add: x_def)
qed

lemma round_real_pow2: "- 1074 \<le> k \<Longrightarrow> round_real (2 powi k) = 2 powi k"
  using round_real_exact [of 1 k] by simp

lemma round_real_bound:
  assumes "\<bar>x\<bar> \<le> 2 powi n" "- 1074 \<le> n"
  shows "\<bar>round_real x\<bar> \<le> 2 powi n"
proof -
  have "round_real x \<le> round_real (2 powi n)"
    using assms(1) by (intro round_real_mono) simp
  moreover have "round_real (- (2 powi n)) \<le> round_real x"
    using assms(1) by (intro round_real_mono) simp
  ultimately show ?thesis
    using assms(2) by (simp add: round_real_pow2 round_real_minus abs_le_iff)
qed

lemma to_double_finite:
  assumes "\<bar>x\<bar> \<le> 2 powi n" "- 1074 \<le> n" "n \<le> 1023"
  shows "\<exists>y. to_double x = Fin y \<and> \<bar>y\<bar> \<le> 2 powi n"
proof -
  have b: "\<bar>round_real x\<bar> \<le> 2 powi n" using assms(1,2) by (rule round_real_bound)
  have "n < 1024" using assms(3) by simp
  then have "(2::real) powi n < 2 powi 1024" by (simp only: pow2_less_iff)
  with b have "\<not> 2 powi 1024 \<le> round_real x" "\<not> round_real x \<le> - (2 powi 1024)"
    by linarith+
  with b show ?thesis by (simp add: to_double_def)
qed

lemma to_double_exact:
  assumes "\<bar>m\<bar> < 2 ^ 53" "- 1074 \<le> k" "k \<le> 971"
  shows "to_double (of_int m * 2 powi k) = Fin (of_int m * 2 powi k)"
proof -
  have "\<bar>of_int m :: real\<bar> < 2 ^ 53"
    using assms(1) by (metis of_int_abs of_int_less_iff of_int_numeral of_int_power)
  then have "\<bar>of_int m * 2 powi k :: real\<bar> < 2 ^ 53 * 2 powi k"
    by (simp add: abs_mult)
  also have "\<dots> = 2 powi (53 + k)"
    using power_int_add [of "2::real" 53 k] by simp
  also have "\<dots> \<le> 2 powi 1024"
  proof -
    have "53 + k \<le> 1024" using assms(3) by simp
    then show ?thesis by (intro power_int_increasing) simp_all
  qed
  finally have "\<bar>round_real (of_int m * 2 powi k)\<bar> < 2 powi 1024"
    using assms(1,2) by (simp add: round_real_exact)
  then have "\<not> 2 powi 1024 \<le> round_real (of_int m * 2 powi k)"
    "\<not> round_real (of_int m * 2 powi k) \<le> - (2 powi 1024)"
    by linarith+
  then show ?thesis using assms(1,2) by (simp add: to_double_def round_real_exact)
qed

lemma to_double_of_int: "\<bar>m\<bar> < 2 ^ 53 \<Longrightarrow> to_double (of_int m) = Fin (of_int m)"
  using to_double_exact [of m 0] by simp

lemma to_double_zero [simp]: "to_double 0 = Fin 0"
  using to_double_of_int [of 0] by simp

lemma to_double_one [simp]: "to_double 1 = Fin 1"
  using to_double_of_int [of 1] by simp

lemma to_double_numeral [simp]:
  "(numeral n :: int) < 9007199254740992 \<Longrightarrow> to_double (numeral n) = Fin (numeral n)"
  using to_double_of_int [of "numeral n"] by simp

lemma to_double_neg_numeral [simp]:
  "(numeral n :: int) < 9007199254740992 \<Longrightarrow> to_double (- numeral n) = Fin (- numeral n)"
  using to_double_of_int [of "- numeral n"] by simp

lemma to_double_neg_one [simp]: "to_double (- 1) = Fin (- 1)"
  using to_double_of_int [of "- 1"] by simp

lemma to_double_mono:
  assumes "to_double t = Fin t" "t \<le> x"
  shows "to_double x = PInf \<or> (\<exists>y. to_double x = Fin y \<and> t \<le> y)"
proof -
  from assms(1) have t: "round_real t = t" "\<not> round_real t \<le> - (2 powi 1024)"
    by (simp_all add: to_double_def split: if_splits)
  have "round_real t \<le> round_real x" using assms(2) by (rule round_real_mono)
  with t show ?thesis by (simp add: to_double_def)
qed

lemma round_real_in_binade:
  assumes "2 powi e \<le> \<bar>x\<bar>" "\<bar>x\<bar> < 2 powi (e + 1)" "- 1022 \<le> e"
  shows "round_real x = of_int (round_even (x / 2 powi (e - 52))) * 2 powi (e - 52)"
proof -
  have "\<lfloor>log 2 \<bar>x\<bar>\<rfloor> = e" using assms(1,2) by (rule log_floorI)
  then have "binade x = e" using assms(3) by (simp add: binade_def)
  then show ?thesis by (simp add: round_real_def quantum_def)
qed

lemma round_even_quantum_bound: "\<bar>round_even (x / quantum x)\<bar> \<le> 2 ^ 53"
proof -
  have b: "\<bar>x\<bar> / quantum x \<le> of_int (2 ^ 53)"
  proof (cases "x = 0")
    case True
    then show ?thesis by simp
  next
    case False
    have "\<bar>x\<bar> < 2 powi (\<lfloor>log 2 \<bar>x\<bar>\<rfloor> + 1)" using log_bracket(2) [OF False] .
    also have "\<dots> \<le> 2 powi (binade x + 1)"
      using floor_log_le_binade [of x] by (simp add: power_int_increasing)
    finally have "\<bar>x\<bar> / quantum x < 2 powi (binade x + 1) / quantum x"
      by (simp add: divide_strict_right_mono)
    also have "2 powi (binade x + 1) / quantum x = 2 powi 53"
      by (simp add: quantum_def power_int_diff [symmetric])
    finally show ?thesis by simp
  qed
  have "x / quantum x \<le> \<bar>x\<bar> / quantum x" by (simp add: divide_right_mono)
  with b have "x / quantum x \<le> of_int (2 ^ 53)" by linarith
  then have u: "round_even (x / quantum x) \<le> 2 ^ 53" by (rule round_even_le)
  have "- (\<bar>x\<bar> / quantum x) \<le> x / quantum x"
    by (metis abs_ge_minus_self divide_right_mono minus_divide_left minus_le_iff quantum_pos(2))
  with b have "of_int (- (2 ^ 53)) \<le> x / quantum x" by simp
  then have "- (2 ^ 53) \<le> round_even (x / quantum x)" by (rule round_even_ge)
  with u show ?thesis by simp
qed

lemma round_real_idem: "round_real (round_real x) = round_real x"
proof -
  define m where "m = round_even (x / quantum x)"
  have rr: "round_real x = of_int m * 2 powi (binade x - 52)"
    by (simp add: round_real_def m_def quantum_def)
  have k: "- 1074 \<le> binade x - 52" by (simp add: binade_def)
  have "\<bar>m\<bar> \<le> 2 ^ 53" unfolding m_def by (rule round_even_quantum_bound)
  then consider "\<bar>m\<bar> < 2 ^ 53" | "m = 2 ^ 53" | "m = - (2 ^ 53)" by linarith
  then show ?thesis
  proof cases
    case 1
    then show ?thesis using k by (simp only: rr round_real_exact)
  next
    case 2
    have "round_real x = 2 powi (binade x + 1)"
      using power_int_add [of "2::real" 53 "binade x - 52"] by (simp add: rr 2 add.commute)
    then show ?thesis using k by (simp add: round_real_pow2)
  next
    case 3
    have "round_real x = - (2 powi (binade x + 1))"
      using power_int_add [of "2::real" 53 "binade x - 52"] by (simp add: rr 3 add.commute)
    then show ?thesis using k by (simp add: round_real_pow2 round_real_minus)
  qed
qed

lemma to_double_idem: "to_double x = Fin y \<Longrightarrow> to_double y = Fin y"
  by (auto simp: to_double_def round_real_idem split: if_splits)

lemma to_double_nonneg:
  "0 \<le> x \<Longrightarrow> to_double x = PInf \<or> (\<exists>y. to_double x = Fin y \<and> 0 \<le> y)"
  using to_double_mono [of 0 x] by simp

lemma js_double_to_double [simp]: "js_double (to_double x)"
proof (cases "to_double x")
  case (Fin y)
  then show ?thesis using to_double_idem [of x y] by simp
qed simp_all

lemma js_double_add [simp]: "js_double (js_add a b)"
  by (cases a; cases b; simp)

lemma js_double_mul [simp]: "js_double (js_mul a b)"
  by (cases a; cases b; simp add: inf_of_sign_def)

lemma js_add_zero: "js_double z \<Longrightarrow> js_add z (Fin 0) = z"
  by (cases z) simp_all

section \<open>Lookups in maps\<close>

lemma map_of_map_set: "map_of (map_set k v m) k' = (if k' = k then Some v else map_of m k')"
  by (induction m) auto

lemma map_of_fold_set:
  "map_of (fold (\<lambda>(k, s) m. map_set k (f s) m) mm acc) k'
     = (case map_of (rev mm) k' of None \<Rightarrow> map_of acc k' | Some s \<Rightarrow> Some (f s))"
proof (induction mm arbitrary: acc)
  case Nil
  then show ?case by simp
next
  case (Cons e mm)
  obtain k s where e: "e = (k, s)" by (cases e)
  show ?case
    by (simp add: e Cons map_of_map_set map_add_def split: option.splits)
qed

section \<open>The examples\<close>

lemma convert_sample_json: "convertKeysToCamelCase sample_json = sample_json"
  by (simp add: sample_json_def is_alnum_def upper_char_def obj_set_def key_before_def
      array_index_def digit_of_def)

lemma parse_sample_json: "parseFloorData digits_number sample_json = Inr sample_data"
  by (simp add: parseFloorData_def convert_sample_json)
    (simp add: parse_converted_def sample_json_def sample_data_def map_get_def parse_freqHz_def
      parse_modes_def parse_uzMap_def map_keys_def digits_number_def digit_of_def Let_def
      parse_node_def)

lemma convert_inf_coord_json: "convertKeysToCamelCase inf_coord_json = inf_coord_json"
  by (simp add: inf_coord_json_def is_alnum_def upper_char_def obj_set_def key_before_def
      array_index_def digit_of_def)

lemma parse_inf_coord_json: "parseFloorData digits_number inf_coord_json = Inr inf_coord_data"
  by (simp add: parseFloorData_def convert_inf_coord_json)
    (simp add: parse_converted_def inf_coord_json_def inf_coord_data_def map_get_def
      parse_freqHz_def parse_modes_def parse_uzMap_def map_keys_def digits_number_def
      digit_of_def Let_def parse_node_def)

lemma convert_dup_json: "convertKeysToCamelCase dup_json = dup_json"
  by (simp add: dup_json_def is_alnum_def upper_char_def obj_set_def key_before_def
      array_index_def digit_of_def)

lemma parse_dup_json: "parseFloorData digits_number dup_json = Inr dup_data"
  by (simp add: parseFloorData_def convert_dup_json)
    (simp add: parse_converted_def dup_json_def dup_data_def map_get_def parse_freqHz_def
      parse_modes_def parse_uzMap_def map_keys_def digits_number_def digit_of_def Let_def
      parse_node_def)

lemma sample_controller:
  "AnimationController sample_data =
     \<lparr>c_nodes = nodes sample_data, c_lines = lines sample_data, c_freqHz = freqHz sample_data,
      c_modes = modes sample_data, c_lFloor = Fin 6, c_aRef = to_double (3 / 5),
      c_umaxMap = [(Fin 1, Fin 1), (Fin 2, Fin 1)], c_currentMode = Some (Fin 1),
      c_scale = Fin 1, c_speed = Fin 1, c_time = Fin 0, c_playing = False,
      c_modeList = [Fin 1, Fin 2]\<rparr>"
  by (simp add: AnimationController_def sample_data_def computeFloorMetrics_def floor_span_def
      map_values_def metrics_step_def js_gt_def js_sub_def js_max_def js_seq_def
      build_umaxMap_def umax_of_def umax_step_def map_keys_def sort_ascending_def)

lemma sample_playing_state:
  "sample_playing = (AnimationController sample_data)\<lparr>c_time := Fin 1, c_playing := True\<rparr>"
  by (simp add: sample_playing_def sample_controller play_def update_def)

lemma sample_clamped_reachable: "reachable sample_data sample_clamped"
proof -
  have "reachable sample_data
          (snd (call (SetSpeed (Fin 0))
             (snd (call (SetScale (Fin 10)) (AnimationController sample_data)))))"
    by (intro reachable.intros) (simp_all add: finite_arg_def)
  then show ?thesis
    by (simp add: sample_clamped_def)
qed

section \<open>The playback state machine\<close>

lemma sample_playing_reachable: "reachable sample_data sample_playing"
proof -
  have "reachable sample_data
          (snd (call (Update (Fin 1)) (snd (call Play (AnimationController sample_data)))))"
    by (intro reachable.intros) (simp_all add: finite_arg_def)
  then show ?thesis
    by (simp add: sample_playing_def)
qed

lemma reachable_time_double: "reachable d c \<Longrightarrow> js_double (c_time c)"
proof (induction rule: reachable.induct)
  case (constructed d)
  show ?case by (simp add: AnimationController_def Let_def)
next
  case (called d c m)
  then show ?case
    by (cases m)
      (simp_all add: setMode_def play_def stop_def setScale_def setSpeed_def update_def)
qed

lemma update_never_lowers:
  assumes "c_time c = Fin t" "to_double t = Fin t" "c_speed c = Fin v" "0 \<le> v" "0 \<le> dt"
  shows "c_time (update (Fin dt) c) = PInf
       \<or> (\<exists>t'. c_time (update (Fin dt) c) = Fin t' \<and> t \<le> t')"
proof (cases "c_playing c")
  case False
  with assms(1) show ?thesis by (simp add: update_def)
next
  case True
  from assms(4,5) have "0 \<le> dt * v" by simp
  then consider "to_double (dt * v) = PInf" | y where "to_double (dt * v) = Fin y" "0 \<le> y"
    using to_double_nonneg by blast
  then show ?thesis
  proof cases
    case 1
    with True assms(1,3) show ?thesis by (simp add: update_def)
  next
    case 2
    from 2(2) have "t \<le> t + y" by simp
    with assms(2) have "to_double (t + y) = PInf \<or> (\<exists>t'. to_double (t + y) = Fin t' \<and> t \<le> t')"
      by (rule to_double_mono)
    with True assms(1,3) 2(1) show ?thesis by (simp add: update_def)
  qed
qed

text \<open>
  C6. In every state, also while playing, \<open>setMode(m)\<close> makes \<open>m\<close> the current mode, sets
  the time to \<open>0\<close> and stops the playback. No other method sets the time back: each
  of them but \<open>setMode\<close> and \<open>update\<close> leaves the time as it is, and \<open>update\<close> with a
  non-negative step, at a non-negative speed, never lowers it. The time that \<open>update\<close>
  leaves is the rounded sum \<open>time + deltaTime * speed\<close>: a number at least the time before,
  or \<open>Infinity\<close> when the sum leaves the range of the format. The time before is a number
  of the format, as it is in every state that the object takes.
\<close>

theorem setMode_resets_time:
  "c_currentMode (setMode m c) = Some m \<and> c_time (setMode m c) = Fin 0
   \<and> \<not> c_playing (setMode m c)
   \<and> (\<forall>op. (\<forall>m'. op \<noteq> SetMode m') \<and> (\<forall>dt. op \<noteq> Update dt)
          \<longrightarrow> c_time (snd (call op c)) = c_time c)
   \<and> (\<forall>dt t v. c_time c = Fin t \<and> js_double (c_time c) \<and> c_speed c = Fin v \<and> 0 \<le> v
               \<and> 0 \<le> dt
          \<longrightarrow> c_time (snd (call (Update (Fin dt)) c)) = PInf
              \<or> (\<exists>t'. c_time (snd (call (Update (Fin dt)) c)) = Fin t' \<and> t \<le> t'))
   \<and> (reachable d c \<longrightarrow> js_double (c_time c))"
proof -
  have a: "c_time (snd (call op c)) = c_time c"
    if "\<forall>m'. op \<noteq> SetMode m'" "\<forall>dt. op \<noteq> Update dt" for op
    using that by (cases op) (simp_all add: play_def stop_def setScale_def setSpeed_def)
  have b: "c_time (snd (call (Update (Fin dt)) c)) = PInf
       \<or> (\<exists>t'. c_time (snd (call (Update (Fin dt)) c)) = Fin t' \<and> t \<le> t')"
    if "c_time c = Fin t" "js_double (c_time c)" "c_speed c = Fin v" "0 \<le> v" "0 \<le> dt"
    for dt t v
    using update_never_lowers [of c t v dt] that by simp
  have c: "c_currentMode (setMode m c) = Some m" "c_time (setMode m c) = Fin 0"
    "\<not> c_playing (setMode m c)"
    by (simp_all add: setMode_def)
  show ?thesis using a b c reachable_time_double [of d c] by blast
qed

theorem setMode_resets_time_witness:
  "c_playing sample_playing \<and> c_time sample_playing = Fin 1
   \<and> reachable sample_data sample_playing \<and> js_double (c_time sample_playing)
   \<and> c_currentMode (setMode (Fin 2) sample_playing) = Some (Fin 2)
   \<and> c_time (setMode (Fin 2) sample_playing) = Fin 0
   \<and> \<not> c_playing (setMode (Fin 2) sample_playing)
   \<and> c_time (snd (call Stop sample_playing)) = Fin 1
   \<and> (c_time (snd (call (Update (Fin 0.5)) sample_playing)) = PInf
       \<or> (\<exists>t'. c_time (snd (call (Update (Fin 0.5)) sample_playing)) = Fin t' \<and> 1 \<le> t'))"
proof -
  note T = setMode_resets_time [of "Fin 2" sample_playing sample_data]
  have s: "c_playing sample_playing" "c_time sample_playing = Fin 1"
    "c_speed sample_playing = Fin 1"
    by (simp_all add: sample_playing_state sample_controller)
  note r = sample_playing_reachable
  from T r have d: "js_double (c_time sample_playing)" by blast
  from T have "c_time (snd (call Stop sample_playing)) = c_time sample_playing"
    by blast
  moreover from T have "c_time sample_playing = Fin 1 \<and> js_double (c_time sample_playing)
        \<and> c_speed sample_playing = Fin 1 \<and> (0::real) \<le> 1 \<and> (0::real) \<le> 0.5
      \<longrightarrow> c_time (snd (call (Update (Fin 0.5)) sample_playing)) = PInf
          \<or> (\<exists>t'. c_time (snd (call (Update (Fin 0.5)) sample_playing)) = Fin t' \<and> 1 \<le> t')"
    by blast
  with s d have "c_time (snd (call (Update (Fin 0.5)) sample_playing)) = PInf
       \<or> (\<exists>t'. c_time (snd (call (Update (Fin 0.5)) sample_playing)) = Fin t' \<and> 1 \<le> t')"
    by simp
  ultimately show ?thesis using T s r d by simp
qed

lemma clamp_Fin:
  "js_max (Fin lo) (js_min (Fin hi) (Fin x)) = Fin (max lo (min hi x))"
  by (simp add: js_max_def js_min_def max_def min_def)

lemma call_keeps_range:
  assumes "finite_arg m"
    and "\<exists>s. c_scale c = Fin s \<and> 0.5 \<le> s \<and> s \<le> 3"
    and "\<exists>v. c_speed c = Fin v \<and> 0.2 \<le> v \<and> v \<le> 2"
  shows "(\<exists>s. c_scale (snd (call m c)) = Fin s \<and> 0.5 \<le> s \<and> s \<le> 3)
       \<and> (\<exists>v. c_speed (snd (call m c)) = Fin v \<and> 0.2 \<le> v \<and> v \<le> 2)"
proof (cases m)
  case (SetScale a)
  with assms(1) obtain x where "a = Fin x"
    by (cases a) (simp_all add: finite_arg_def)
  with SetScale assms(3) show ?thesis
    by (simp add: setScale_def clamp_Fin)
next
  case (SetSpeed a)
  with assms(1) obtain x where "a = Fin x"
    by (cases a) (simp_all add: finite_arg_def)
  with SetSpeed assms(2) show ?thesis
    by (simp add: setSpeed_def clamp_Fin)
qed (use assms in \<open>simp_all add: setMode_def play_def stop_def update_def\<close>)

lemma reachable_range:
  "reachable d c \<Longrightarrow>
     (\<exists>s. c_scale c = Fin s \<and> 0.5 \<le> s \<and> s \<le> 3)
   \<and> (\<exists>v. c_speed c = Fin v \<and> 0.2 \<le> v \<and> v \<le> 2)"
proof (induction rule: reachable.induct)
  case (constructed d)
  show ?case by (simp add: AnimationController_def Let_def)
next
  case (called d c m)
  then show ?case using call_keeps_range by blast
qed

text \<open>
  C7. In every state that the object takes, from its construction on and through calls of
  its methods on finite numbers, the scale is a number of \<open>[0.5, 3.0]\<close> and the speed a
  number of \<open>[0.2, 2.0]\<close>. \<open>setScale\<close> stores its real argument clamped into
  \<open>[0.5, 3.0]\<close> and \<open>setSpeed\<close> into \<open>[0.2, 2.0]\<close>: \<open>setScale(10)\<close> stores \<open>3.0\<close> and
  \<open>setSpeed(0)\<close> stores \<open>0.2\<close>.
\<close>

theorem scale_speed_clamped:
  "(reachable d c \<longrightarrow>
      (\<exists>s v. c_scale c = Fin s \<and> 0.5 \<le> s \<and> s \<le> 3 \<and> c_speed c = Fin v \<and> 0.2 \<le> v \<and> v \<le> 2))
   \<and> c_scale (setScale (Fin x) c') = Fin (max 0.5 (min 3 x))
   \<and> c_speed (setSpeed (Fin x) c') = Fin (max 0.2 (min 2 x))
   \<and> c_scale (setScale (Fin 10) c') = Fin 3
   \<and> c_speed (setSpeed (Fin 0) c') = Fin 0.2"
proof -
  have "\<exists>s v. c_scale c = Fin s \<and> 0.5 \<le> s \<and> s \<le> 3 \<and> c_speed c = Fin v \<and> 0.2 \<le> v \<and> v \<le> 2"
    if "reachable d c"
    using reachable_range [OF that] by blast
  then show ?thesis
    by (simp add: setScale_def setSpeed_def clamp_Fin)
qed

theorem scale_speed_clamped_witness:
  "reachable sample_data sample_clamped
   \<and> c_scale sample_clamped = Fin 3 \<and> c_speed sample_clamped = Fin 0.2
   \<and> (\<exists>s v. c_scale sample_clamped = Fin s \<and> 0.5 \<le> s \<and> s \<le> 3
          \<and> c_speed sample_clamped = Fin v \<and> 0.2 \<le> v \<and> v \<le> 2)"
proof -
  note r = sample_clamped_reachable
  have "c_scale sample_clamped = Fin 3" "c_speed sample_clamped = Fin 0.2"
    by (simp_all add: sample_clamped_def setScale_def setSpeed_def clamp_Fin)
  with r scale_speed_clamped [of sample_data sample_clamped] show ?thesis
    by blast
qed

lemma calls_getDisplacedZ:
  "calls (map GetDisplacedZ ks) c = (map (\<lambda>k. NumResult (getDisplacedZ k c)) ks, c)"
  by (induction ks) simp_all

text \<open>
  C8. \<open>stop()\<close> sets \<open>playing\<close> to false and changes no other field, the time among them;
  once stopped, \<open>update\<close> itself changes nothing; and a call of \<open>getDisplacedZ\<close> leaves
  the state as it is. So the calls of
  \<open>getDisplacedZ\<close> that follow \<open>stop()\<close>, for any nodes and with no other call between
  them, each return the value of the held frame: the same value every time for the same
  node, the one \<open>getDisplacedZ\<close> had before \<open>stop()\<close>.
\<close>

theorem stop_holds_frame:
  "stop c = c\<lparr>c_playing := False\<rparr>
   \<and> c_time (stop c) = c_time c
   \<and> update dt (stop c) = stop c
   \<and> snd (call (GetDisplacedZ k) c) = c
   \<and> calls (map GetDisplacedZ ks) (stop c)
       = (map (\<lambda>k. NumResult (getDisplacedZ k (stop c))) ks, stop c)
   \<and> calls (replicate n (GetDisplacedZ k)) (stop c)
       = (replicate n (NumResult (getDisplacedZ k c)), stop c)"
proof -
  have same: "getDisplacedZ k (stop c) = getDisplacedZ k c"
    by (simp add: getDisplacedZ_def stop_def cong: option.case_cong)
  have "calls (map GetDisplacedZ (replicate n k)) (stop c)
       = (map (\<lambda>k. NumResult (getDisplacedZ k (stop c))) (replicate n k), stop c)"
    by (rule calls_getDisplacedZ)
  then have rep: "calls (replicate n (GetDisplacedZ k)) (stop c)
       = (replicate n (NumResult (getDisplacedZ k c)), stop c)"
    by (simp add: same)
  have "stop c = c\<lparr>c_playing := False\<rparr>" "c_time (stop c) = c_time c"
    "update dt (stop c) = stop c"
    by (simp_all add: stop_def update_def)
  with rep show ?thesis
    by (simp add: calls_getDisplacedZ)
qed

lemma convert_nan_z_json: "convertKeysToCamelCase nan_z_json = nan_z_json"
  by (simp add: nan_z_json_def is_alnum_def upper_char_def obj_set_def key_before_def
      array_index_def digit_of_def)

lemma parse_nan_z_json: "parseFloorData digits_number nan_z_json = Inr nan_z_data"
  by (simp add: parseFloorData_def convert_nan_z_json)
    (simp add: parse_converted_def nan_z_json_def nan_z_data_def map_get_def parse_freqHz_def
      parse_modes_def parse_uzMap_def map_keys_def digits_number_def digit_of_def Let_def
      parse_node_def)

lemma validate_nan_z_data: "validate_data nan_z_data = \<lparr>errors = [], warnings = []\<rparr>"
  by (simp add: validate_data_def validateFloorData_def nan_z_data_def check_required_def
        validate_present_def check_line_def map_has_def js_seq_def check_freq_def js_isNaN_def
        js_le_def js_gt_def check_mode_has_freq_def check_freq_has_mode_def map_keys_def
        check_mode_shape_def EPS_def check_z_mixed_def map_values_def js_sub_def)

text \<open>
  C9, as it holds. \<open>setMode\<close> takes any mode number, unchecked, and changes neither the
  nodes nor the mode shapes. In every state whose current mode has no entry in the modes
  mapping, whatever the time and whether the playback runs, \<open>getDisplacedZ\<close> returns for
  a node of the nodes mapping the elevation \<open>z\<close> of the node as it is stored: the result
  is NaN when, and only when, the stored elevation is NaN.
\<close>

theorem getDisplacedZ_unknown_mode:
  assumes "map_get (c_nodes c) k = Some n"
    and "c_currentMode c = Some m"
    and "map_get (c_modes c) m = None"
  shows "getDisplacedZ k c = node_z n
       \<and> (getDisplacedZ k c = NaN) = (node_z n = NaN)
       \<and> c_currentMode (setMode m' c) = Some m'
       \<and> c_nodes (setMode m' c) = c_nodes c
       \<and> c_modes (setMode m' c) = c_modes c"
  using assms by (simp add: getDisplacedZ_def setMode_def)

theorem getDisplacedZ_unknown_mode_witness:
  "c_playing sample_playing \<and> c_time sample_playing = Fin 1
   \<and> map_get (c_nodes (setMode (Fin 7) sample_playing)) (Fin 3)
       = Some \<lparr>node_id = Fin 3, node_x = Fin 6, node_y = Fin 4, node_z = Fin 0\<rparr>
   \<and> c_currentMode (setMode (Fin 7) sample_playing) = Some (Fin 7)
   \<and> map_get (c_modes (setMode (Fin 7) sample_playing)) (Fin 7) = None
   \<and> getDisplacedZ (Fin 3) (setMode (Fin 7) sample_playing) = Fin 0
   \<and> getDisplacedZ (Fin 3) (setMode (Fin 7) sample_playing) \<noteq> NaN"
proof -
  have s: "c_playing sample_playing" "c_time sample_playing = Fin 1"
    by (simp_all add: sample_playing_state sample_controller)
  have a: "map_get (c_nodes (setMode (Fin 7) sample_playing)) (Fin 3)
     = Some \<lparr>node_id = Fin 3, node_x = Fin 6, node_y = Fin 4, node_z = Fin 0\<rparr>"
    by (simp add: setMode_def sample_playing_state sample_controller)
      (simp add: sample_data_def map_get_def)
  have b: "c_currentMode (setMode (Fin 7) sample_playing) = Some (Fin 7)"
    by (simp add: setMode_def)
  have c: "map_get (c_modes (setMode (Fin 7) sample_playing)) (Fin 7) = None"
    by (simp add: setMode_def sample_playing_state sample_controller)
      (simp add: sample_data_def map_get_def)
  show ?thesis using getDisplacedZ_unknown_mode [OF a b c] s a b c by simp
qed

text \<open>
  C9 as stated, with no NaN for every node, fails where the stored elevation is itself NaN.
  The source \<open>nan_z_json\<close> gives its first node the elevation \<open>"high"\<close>; the parser stores
  NaN, the validator, which does not look at a single elevation, reports neither an error
  nor a warning, and after \<open>setMode(7)\<close>, a mode with no shape, \<open>getDisplacedZ(1)\<close>
  returns NaN.
\<close>

theorem getDisplacedZ_unknown_mode_counterexample:
  "parseFloorData digits_number nan_z_json = Inr nan_z_data
   \<and> validate_data nan_z_data = \<lparr>errors = [], warnings = []\<rparr>
   \<and> map_has (c_nodes (setMode (Fin 7) (AnimationController nan_z_data))) (Fin 1)
   \<and> c_currentMode (setMode (Fin 7) (AnimationController nan_z_data)) = Some (Fin 7)
   \<and> map_get (c_modes (setMode (Fin 7) (AnimationController nan_z_data))) (Fin 7) = None
   \<and> getDisplacedZ (Fin 1) (setMode (Fin 7) (AnimationController nan_z_data)) = NaN"
  using parse_nan_z_json validate_nan_z_data
  by (simp add: getDisplacedZ_def setMode_def AnimationController_def Let_def)
    (simp add: nan_z_data_def map_get_def map_has_def)

section \<open>The validator\<close>

lemma and_then_Continue [simp]: "and_then f Continue = f"
  by (cases f) simp_all
























lemma sample_nodes_ok: "check_node_ids (nodes sample_data) {} 0 r = Continue r"
  by (simp add: sample_data_def)

lemma sample_lines_ok: "check_lines (nodes sample_data) (lines sample_data) {} 0 r = Continue r"
  by (simp add: sample_data_def check_line_def map_has_def js_seq_def)

lemma sample_z_ok: "check_z_mixed (nodes sample_data) r = r"
  by (simp add: sample_data_def check_z_mixed_def map_values_def js_sub_def js_gt_def EPS_def)






lemma high_freqs_warn:
  "for_each check_freq (map (\<lambda>i. (Fin (real i), Fin 31)) xs) r
     = Continue (r\<lparr>warnings := warnings r
          @ map (\<lambda>i. \<lparr>code = W_FREQ_HIGH, message = [Num (Fin (real i)), Num (Fin 31)]\<rparr>) xs\<rparr>)"
  by (induction xs arbitrary: r)
    (simp_all add: check_freq_def js_isNaN_def js_le_def js_gt_def warning_step_def
      pushWarning_def)

lemma map_has_map: "i \<in> set xs \<Longrightarrow> map_has (map (\<lambda>i. (f i, g i)) xs) (f i)"
  by (induction xs) (auto simp: map_has_def)

lemma modes_have_freq:
  "\<forall>k \<in> set ks. map_has fm k \<Longrightarrow> for_each (check_mode_has_freq fm) ks r = Continue r"
  by (induction ks) (simp_all add: check_mode_has_freq_def)

lemma freqs_have_mode:
  "\<forall>k \<in> set ks. map_has mm k \<Longrightarrow> for_each (check_freq_has_mode mm) ks r = Continue r"
  by (induction ks) (simp_all add: check_freq_has_mode_def)

lemma shapes_ok:
  "for_each (check_mode_shape (nodes sample_data))
     (map (\<lambda>i. (Fin (real i), [(Fin 1, Fin 1), (Fin 2, Fin 0), (Fin 3, Fin 0), (Fin 4, Fin 0)])) xs) r
     = Continue r"
  by (induction xs)
    (simp_all add: check_mode_shape_def sample_data_def map_has_def js_isNaN_def js_gt_def EPS_def)

lemma modes_match_freqs:
  "for_each (check_mode_has_freq (map (\<lambda>i. (Fin (real i), v)) xs))
     (map_keys (map (\<lambda>i. (Fin (real i), s)) xs)) r = Continue r"
proof (rule modes_have_freq, rule ballI)
  fix k assume "k \<in> set (map_keys (map (\<lambda>i. (Fin (real i), s)) xs))"
  then obtain i where "i \<in> set xs" "k = Fin (real i)"
    by (auto simp: map_keys_def)
  then show "map_has (map (\<lambda>i. (Fin (real i), v)) xs) k"
    using map_has_map [of i xs "\<lambda>i. Fin (real i)" "\<lambda>i. v"] by simp
qed

lemma freqs_match_modes:
  "for_each (check_freq_has_mode (map (\<lambda>i. (Fin (real i), s)) xs))
     (map_keys (map (\<lambda>i. (Fin (real i), v)) xs)) r = Continue r"
proof (rule freqs_have_mode, rule ballI)
  fix k assume "k \<in> set (map_keys (map (\<lambda>i. (Fin (real i), v)) xs))"
  then obtain i where "i \<in> set xs" "k = Fin (real i)"
    by (auto simp: map_keys_def)
  then show "map_has (map (\<lambda>i. (Fin (real i), s)) xs) k"
    using map_has_map [of i xs "\<lambda>i. Fin (real i)" "\<lambda>i. s"] by simp
qed

lemma validate_high_freq_data:
  "validate_data (high_freq_data n)
     = \<lparr>errors = [],
        warnings = map (\<lambda>i. \<lparr>code = W_FREQ_HIGH, message = [Num (Fin (real i)), Num (Fin 31)]\<rparr>)
                     [1..<Suc n]\<rparr>"
proof -
  have n: "length (nodes sample_data) \<noteq> 0" "length (lines sample_data) \<noteq> 0"
    by (simp_all add: sample_data_def)
  have "validate_present (nodes sample_data) (lines sample_data)
          (map (\<lambda>i. (Fin (real i), Fin 31)) xs)
          (map (\<lambda>i. (Fin (real i), [(Fin 1, Fin 1), (Fin 2, Fin 0), (Fin 3, Fin 0),
                                     (Fin 4, Fin 0)])) xs)
          \<lparr>errors = [], warnings = []\<rparr>
     = Continue \<lparr>errors = [],
        warnings = map (\<lambda>i. \<lparr>code = W_FREQ_HIGH, message = [Num (Fin (real i)), Num (Fin 31)]\<rparr>)
                     xs\<rparr>" for xs
    unfolding validate_present_def
    by (simp only: n if_False sample_nodes_ok sample_lines_ok and_then.simps high_freqs_warn
        modes_match_freqs freqs_match_modes shapes_ok sample_z_ok) simp
  then show ?thesis
    by (simp add: validate_data_def validateFloorData_def high_freq_data_def check_required_def
        del: upt_Suc)
qed

text \<open>
  C10. The cap is on the errors alone. \<open>pushWarning\<close> appends whatever the length of the
  list, and the warnings of a report are not bounded: the sample with \<open>n\<close> modes of
  \<open>31\<close> Hz has no error and \<open>n\<close> warnings \<open>W_FREQ_HIGH\<close>, one for each mode, so
  \<open>101\<close> of them for \<open>101\<close> modes.
\<close>

theorem warnings_not_capped:
  "length (pushWarning lst c m) = length lst + 1
   \<and> errors (validate_data (high_freq_data n)) = []
   \<and> map code (warnings (validate_data (high_freq_data n))) = replicate n W_FREQ_HIGH
   \<and> length (warnings (validate_data (high_freq_data 101))) = 101"
  by (simp add: validate_high_freq_data pushWarning_def comp_def map_replicate_const)

section \<open>The displacement at time zero\<close>

lemma getDisplacedZ_factors:
  assumes "map_get (c_nodes c) k = Some n" "c_currentMode c = Some m"
    and "map_get (c_modes c) m = Some modeShape"
  shows "getDisplacedZ k c
       = js_add (node_z n)
           (js_mul (amplitude k m modeShape c)
              (js_sin (js_mul (angular_rate m c) (c_time c))))"
  using assms by (simp add: getDisplacedZ_def amplitude_def angular_rate_def Let_def)

lemma product_at_zero:
  "js_mul a (js_sin (js_mul w (Fin 0)))
     = (if js_isFinite a \<and> js_isFinite w then Fin 0 else NaN)"
  by (cases a; cases w; simp)

lemma displaced_at_zero:
  assumes "map_get (c_nodes c) k = Some n" "c_time c = Fin 0" "js_double (node_z n)"
  shows "getDisplacedZ k c = (if finite_factors k c then node_z n else NaN)"
proof (cases "c_currentMode c")
  case None
  with assms(1) show ?thesis by (simp add: getDisplacedZ_def finite_factors_def)
next
  case (Some m)
  show ?thesis
  proof (cases "map_get (c_modes c) m")
    case None
    with Some assms(1) show ?thesis by (simp add: getDisplacedZ_def finite_factors_def)
  next
    case shape: (Some modeShape)
    have "getDisplacedZ k c
        = js_add (node_z n)
            (if js_isFinite (amplitude k m modeShape c) \<and> js_isFinite (angular_rate m c)
             then Fin 0 else NaN)"
      by (simp only: getDisplacedZ_factors [OF assms(1) Some shape] assms(2) product_at_zero)
    moreover have "js_add (node_z n) NaN = NaN"
      by (cases "node_z n") simp_all
    ultimately show ?thesis
      using assms(3) Some shape by (simp add: finite_factors_def js_add_zero)
  qed
qed

lemma js_mul_bounded:
  assumes "\<bar>a\<bar> \<le> 2 powi i" "\<bar>b\<bar> \<le> 2 powi j" "- 1074 \<le> i + j" "i + j \<le> 1023"
  shows "\<exists>y. js_mul (Fin a) (Fin b) = Fin y \<and> \<bar>y\<bar> \<le> 2 powi (i + j)"
proof -
  have "\<bar>a * b\<bar> \<le> 2 powi i * 2 powi j"
    unfolding abs_mult using assms(1,2) by (intro mult_mono) simp_all
  then have "\<bar>a * b\<bar> \<le> 2 powi (i + j)"
    by (simp add: power_int_add)
  then show ?thesis
    using to_double_finite [of "a * b" "i + j"] assms(3,4) by simp
qed

lemma two_pi_bounded: "\<exists>p. TWO_PI = Fin p \<and> \<bar>p\<bar> \<le> 2 powi 3"
proof -
  have "\<bar>2 * pi\<bar> \<le> 2 powi 3"
    using pi_less_4 pi_gt_zero by simp
  then show ?thesis
    using to_double_finite [of "2 * pi" 3] by (simp add: TWO_PI_def)
qed

lemma sample_clamped_state:
  "sample_clamped = (AnimationController sample_data)\<lparr>c_scale := Fin 3, c_speed := Fin 0.2\<rparr>"
  by (simp add: sample_clamped_def setScale_def setSpeed_def clamp_Fin)

lemma sample_factors_finite: "finite_factors (Fin 3) sample_clamped"
proof -
  obtain y where y: "to_double (3 / 5) = Fin y" "\<bar>y\<bar> \<le> 2 powi 0"
    using to_double_finite [of "3 / 5" 0] by auto
  obtain y2 where y2: "js_mul (Fin 3) (Fin y) = Fin y2" "\<bar>y2\<bar> \<le> 2 powi (2 + 0)"
    using js_mul_bounded [of 3 2 y 0] y(2) by auto
  obtain y3 where y3: "js_mul (Fin y2) (Fin 1) = Fin y3"
    using js_mul_bounded [of y2 "2 + 0" 1 0] y2(2) by auto
  obtain p where p: "TWO_PI = Fin p" "\<bar>p\<bar> \<le> 2 powi 3"
    using two_pi_bounded by blast
  obtain w where w: "js_mul (Fin p) (Fin (52 / 10)) = Fin w"
    using js_mul_bounded [of p 3 "52 / 10" 3] p(2) by auto
  have a: "amplitude (Fin 3) (Fin 1) [(Fin 1, Fin 0), (Fin 2, Fin 0.4), (Fin 3, Fin 1),
      (Fin 4, Fin 0.5)] sample_clamped = Fin y3"
    unfolding amplitude_def sample_clamped_state
    by (simp add: sample_controller map_has_def map_get_def y y2 [simplified] y3 [simplified])
  have r: "angular_rate (Fin 1) sample_clamped = Fin w"
    unfolding angular_rate_def sample_clamped_state
    by (simp add: sample_controller)
      (simp add: sample_data_def map_get_def js_truthy_def p w [simplified])
  have m: "map_get (c_modes sample_clamped) (Fin 1)
      = Some [(Fin 1, Fin 0), (Fin 2, Fin 0.4), (Fin 3, Fin 1), (Fin 4, Fin 0.5)]"
    unfolding sample_clamped_state
    by (simp add: sample_controller) (simp add: sample_data_def map_get_def)
  have "c_currentMode sample_clamped = Some (Fin 1)"
    unfolding sample_clamped_state by (simp add: sample_controller)
  with m a r show ?thesis
    by (simp add: finite_factors_def)
qed

text \<open>
  C2, as it holds. In any state at time \<open>0\<close>, whatever the scale, the current mode and the
  frequency table, \<open>getDisplacedZ\<close> returns for a node of the nodes mapping the elevation
  \<open>z\<close> of the node when the two factors of the displacement, the amplitude
  \<open>S * A_ref * (uz / Umax)\<close> and the rate \<open>2\<pi> f\<close>, are finite numbers as the code computes
  them; and it returns NaN when one of them is not, the product of an infinity and
  \<open>sin(0) = 0\<close> being NaN. The elevation is a number of the format.
\<close>

theorem displaced_at_time_zero:
  assumes "map_get (c_nodes c) k = Some n"
    and "c_time c = Fin 0"
    and "js_double (node_z n)"
  shows "(finite_factors k c \<longrightarrow> getDisplacedZ k c = node_z n)
       \<and> (\<not> finite_factors k c \<longrightarrow> getDisplacedZ k c = NaN)"
  using displaced_at_zero [OF assms] by simp

theorem displaced_at_time_zero_witness:
  "reachable sample_data sample_clamped
   \<and> c_time sample_clamped = Fin 0 \<and> c_scale sample_clamped = Fin 3
   \<and> c_currentMode sample_clamped = Some (Fin 1)
   \<and> map_get (c_nodes sample_clamped) (Fin 3)
       = Some \<lparr>node_id = Fin 3, node_x = Fin 6, node_y = Fin 4, node_z = Fin 0\<rparr>
   \<and> js_double (Fin 0)
   \<and> finite_factors (Fin 3) sample_clamped
   \<and> getDisplacedZ (Fin 3) sample_clamped = Fin 0"
proof -
  note r = sample_clamped_reachable
  have t: "c_time sample_clamped = Fin 0" "c_scale sample_clamped = Fin 3"
    "c_currentMode sample_clamped = Some (Fin 1)"
    by (simp_all add: sample_clamped_state sample_controller)
  have n: "map_get (c_nodes sample_clamped) (Fin 3)
       = Some \<lparr>node_id = Fin 3, node_x = Fin 6, node_y = Fin 4, node_z = Fin 0\<rparr>"
    by (simp add: sample_clamped_state sample_controller) (simp add: sample_data_def map_get_def)
  have d: "js_double (node_z \<lparr>node_id = Fin 3, node_x = Fin 6, node_y = Fin 4, node_z = Fin 0\<rparr>)"
    by simp
  show ?thesis
    using displaced_at_time_zero [OF n t(1) d] r t n sample_factors_finite by simp
qed

text \<open>
  C2 as stated, for every data set, fails where a coordinate is infinite. The data set
  \<open>inf_coord_data\<close> passes the validator with no error, its span and \<open>A_ref\<close> are
  \<open>Infinity\<close>, and at time \<open>0\<close> the product \<open>Infinity * sin(0)\<close> is NaN: for node
  \<open>1\<close>, of elevation \<open>0\<close>, \<open>getDisplacedZ\<close> returns NaN.
\<close>

theorem displaced_at_time_zero_counterexample:
  "parseFloorData digits_number inf_coord_json = Inr inf_coord_data
   \<and> errors (validate_data inf_coord_data) = []
   \<and> map_get (nodes inf_coord_data) (Fin 1)
       = Some \<lparr>node_id = Fin 1, node_x = PInf, node_y = Fin 0, node_z = Fin 0\<rparr>
   \<and> c_time (AnimationController inf_coord_data) = Fin 0
   \<and> c_aRef (AnimationController inf_coord_data) = PInf
   \<and> getDisplacedZ (Fin 1) (AnimationController inf_coord_data) = NaN
   \<and> getDisplacedZ (Fin 1) (AnimationController inf_coord_data) \<noteq> Fin 0"
proof -
  have v: "errors (validate_data inf_coord_data) = []"
    by (simp add: validate_data_def validateFloorData_def inf_coord_data_def check_required_def
        validate_present_def check_line_def map_has_def js_seq_def check_freq_def js_isNaN_def
        js_le_def js_gt_def check_mode_has_freq_def check_freq_has_mode_def map_keys_def
        check_mode_shape_def EPS_def check_z_mixed_def map_values_def js_sub_def)
  have c: "AnimationController inf_coord_data =
     \<lparr>c_nodes = nodes inf_coord_data, c_lines = lines inf_coord_data,
      c_freqHz = freqHz inf_coord_data, c_modes = modes inf_coord_data,
      c_lFloor = PInf, c_aRef = PInf, c_umaxMap = [(Fin 1, Fin 1)], c_currentMode = Some (Fin 1),
      c_scale = Fin 1, c_speed = Fin 1, c_time = Fin 0, c_playing = False,
      c_modeList = [Fin 1]\<rparr>"
    by (simp add: AnimationController_def inf_coord_data_def computeFloorMetrics_def
        floor_span_def map_values_def metrics_step_def js_gt_def js_sub_def js_max_def js_seq_def
        build_umaxMap_def umax_of_def umax_step_def map_keys_def sort_ascending_def)
  have n: "map_get (c_nodes (AnimationController inf_coord_data)) (Fin 1)
       = Some \<lparr>node_id = Fin 1, node_x = PInf, node_y = Fin 0, node_z = Fin 0\<rparr>"
    by (simp add: c) (simp add: inf_coord_data_def map_get_def)
  have a: "amplitude (Fin 1) (Fin 1) [(Fin 1, Fin 1), (Fin 2, Fin 0)]
      (AnimationController inf_coord_data) = PInf"
    unfolding c by (simp add: amplitude_def map_has_def map_get_def inf_of_sign_def)
  have m: "c_currentMode (AnimationController inf_coord_data) = Some (Fin 1)"
    by (simp add: c)
  have ms: "map_get (c_modes (AnimationController inf_coord_data)) (Fin 1)
      = Some [(Fin 1, Fin 1), (Fin 2, Fin 0)]"
    by (simp add: c) (simp add: inf_coord_data_def map_get_def)
  have "\<not> finite_factors (Fin 1) (AnimationController inf_coord_data)"
    by (simp only: finite_factors_def m ms a option.case js_isFinite.simps simp_thms not_False_eq_True)
  then have g: "getDisplacedZ (Fin 1) (AnimationController inf_coord_data) = NaN"
    using displaced_at_zero [OF n] by (simp add: c)
  show ?thesis
    using parse_inf_coord_json v g by (simp add: c) (simp add: inf_coord_data_def map_get_def)
qed

section \<open>The floor metrics\<close>

lemma to_double_big: "to_double 100000000000000006 = Fin 100000000000000000"
proof -
  have "round_real 100000000000000006 =
          of_int (round_even (100000000000000006 / 2 powi (56 - 52))) * 2 powi (56 - 52)"
    by (rule round_real_in_binade) simp_all
  moreover have "round_even (100000000000000006 / 16) = 6250000000000000"
    by (rule round_even_down) simp_all
  ultimately have "round_real 100000000000000006 = 100000000000000000" by simp
  then show ?thesis by (simp add: to_double_def)
qed

lemma to_double_big_exact: "to_double 100000000000000000 = Fin 100000000000000000"
  using to_double_exact [of 6250000000000000 4] by simp

lemma min_step_commute:
  "(if js_lt x (if js_lt y m then y else m) then x else (if js_lt y m then y else m))
   = (if js_lt y (if js_lt x m then x else m) then y else (if js_lt x m then x else m))"
  by (cases x; cases y; cases m; simp)

lemma max_step_commute:
  "(if js_lt (if js_lt m y then y else m) x then x else (if js_lt m y then y else m))
   = (if js_lt (if js_lt m x then x else m) y then y else (if js_lt m x then x else m))"
  by (cases x; cases y; cases m; simp)

lemma metrics_step_commute:
  "metrics_step a (metrics_step b acc) = metrics_step b (metrics_step a acc)"
proof -
  obtain minX maxX minY maxY where acc: "acc = (minX, maxX, minY, maxY)"
    by (cases acc)
  show ?thesis
    unfolding acc metrics_step_def js_gt_def prod.case
    using min_step_commute [of "node_x a" "node_x b" minX]
      min_step_commute [of "node_y a" "node_y b" minY]
      max_step_commute [of maxX "node_x b" "node_x a"]
      max_step_commute [of maxY "node_y b" "node_y a"]
    by simp
qed

lemma fold_metrics_permuted:
  assumes "mset nm' = mset nm"
  shows "fold metrics_step (map_values nm') acc = fold metrics_step (map_values nm) acc"
proof -
  from assms have "mset (map_values nm') = mset (map_values nm)"
    by (simp add: map_values_def)
  moreover have "metrics_step a \<circ> metrics_step b = metrics_step b \<circ> metrics_step a" for a b
    by (rule ext) (simp add: metrics_step_commute)
  ultimately have "fold metrics_step (map_values nm') = fold metrics_step (map_values nm)"
    by (intro fold_multiset_equiv) simp_all
  then show ?thesis by simp
qed

lemma js_lt_shift:
  "exact_shift c x \<Longrightarrow> exact_shift c m \<Longrightarrow> js_lt (js_add x (Fin c)) (js_add m (Fin c)) = js_lt x m"
  by (cases x; cases m; simp add: exact_shift_def)

lemma js_sub_shift:
  "exact_shift c a \<Longrightarrow> exact_shift c b
   \<Longrightarrow> js_sub (js_add a (Fin c)) (js_add b (Fin c)) = js_sub a b"
  by (cases a; cases b; simp add: js_sub_def exact_shift_def)

lemma metrics_step_shift:
  assumes "exact_shift dx (node_x n)" "exact_shift dy (node_y n)"
    and "exact_shift dx a" "exact_shift dx b" "exact_shift dy c" "exact_shift dy d"
  shows "metrics_step (n\<lparr>node_x := js_add (node_x n) (Fin dx),
                          node_y := js_add (node_y n) (Fin dy)\<rparr>)
           (js_add a (Fin dx), js_add b (Fin dx), js_add c (Fin dy), js_add d (Fin dy))
         = (case metrics_step n (a, b, c, d) of
              (a', b', c', d') \<Rightarrow>
                (js_add a' (Fin dx), js_add b' (Fin dx), js_add c' (Fin dy), js_add d' (Fin dy)))"
  using assms by (simp add: metrics_step_def js_gt_def js_lt_shift)

lemma metrics_step_exact:
  assumes "exact_shift dx (node_x n)" "exact_shift dy (node_y n)"
    and "exact_shift dx a" "exact_shift dx b" "exact_shift dy c" "exact_shift dy d"
    and "metrics_step n (a, b, c, d) = (a', b', c', d')"
  shows "exact_shift dx a' \<and> exact_shift dx b' \<and> exact_shift dy c' \<and> exact_shift dy d'"
  using assms by (auto simp: metrics_step_def split: if_splits)

lemma fold_metrics_shift:
  assumes "exact_translation dx dy nm"
    and "exact_shift dx a" "exact_shift dx b" "exact_shift dy c" "exact_shift dy d"
    and "fold metrics_step (map_values nm) (a, b, c, d) = (a', b', c', d')"
  shows "fold metrics_step (map_values (translate_nodes dx dy nm))
           (js_add a (Fin dx), js_add b (Fin dx), js_add c (Fin dy), js_add d (Fin dy))
         = (js_add a' (Fin dx), js_add b' (Fin dx), js_add c' (Fin dy), js_add d' (Fin dy))
       \<and> exact_shift dx a' \<and> exact_shift dx b' \<and> exact_shift dy c' \<and> exact_shift dy d'"
  using assms
proof (induction nm arbitrary: a b c d)
  case Nil
  then show ?case by (simp add: map_values_def translate_nodes_def)
next
  case (Cons e nm)
  obtain k n where e: "e = (k, n)" by (cases e)
  obtain a1 b1 c1 d1 where st: "metrics_step n (a, b, c, d) = (a1, b1, c1, d1)"
    by (cases "metrics_step n (a, b, c, d)")
  from Cons.prems(1) have n: "exact_shift dx (node_x n)" "exact_shift dy (node_y n)"
    and nm: "exact_translation dx dy nm"
    by (simp_all add: exact_translation_def e map_values_def)
  from n Cons.prems(2-5) st
  have ex: "exact_shift dx a1" "exact_shift dx b1" "exact_shift dy c1" "exact_shift dy d1"
    using metrics_step_exact [of dx n dy a b c d a1 b1 c1 d1] by simp_all
  from Cons.prems(6) have f: "fold metrics_step (map_values nm) (a1, b1, c1, d1) = (a', b', c', d')"
    by (simp add: e st map_values_def)
  have "fold metrics_step (map_values (translate_nodes dx dy (e # nm)))
     (js_add a (Fin dx), js_add b (Fin dx), js_add c (Fin dy), js_add d (Fin dy))
     = fold metrics_step (map_values (translate_nodes dx dy nm))
        (js_add a1 (Fin dx), js_add b1 (Fin dx), js_add c1 (Fin dy), js_add d1 (Fin dy))"
    using metrics_step_shift [OF n Cons.prems(2-5)]
    by (simp add: e st map_values_def translate_nodes_def)
  with Cons.IH [OF nm ex f] show ?case by simp
qed

lemma floor_span_translate:
  assumes "exact_translation dx dy nm"
  shows "floor_span (translate_nodes dx dy nm) = floor_span nm"
proof -
  obtain a b c d where f: "fold metrics_step (map_values nm) (PInf, NInf, PInf, NInf) = (a, b, c, d)"
    by (cases "fold metrics_step (map_values nm) (PInf, NInf, PInf, NInf)")
  have "fold metrics_step (map_values (translate_nodes dx dy nm))
          (js_add PInf (Fin dx), js_add NInf (Fin dx), js_add PInf (Fin dy), js_add NInf (Fin dy))
        = (js_add a (Fin dx), js_add b (Fin dx), js_add c (Fin dy), js_add d (Fin dy))
      \<and> exact_shift dx a \<and> exact_shift dx b \<and> exact_shift dy c \<and> exact_shift dy d"
    by (rule fold_metrics_shift [OF assms _ _ _ _ f]) (simp_all add: exact_shift_def)
  then show ?thesis
    by (simp add: floor_span_def f js_sub_shift)
qed

lemma map_set_fresh: "k \<notin> fst ` set m \<Longrightarrow> map_set k v m = m @ [(k, v)]"
  by (induction m) auto

lemma fold_set_distinct:
  "distinct (map fst es) \<Longrightarrow> fst ` set es \<inter> fst ` set acc = {}
   \<Longrightarrow> fold (\<lambda>(k, v) m. map_set k v m) es acc = acc @ es"
proof (induction es arbitrary: acc)
  case Nil
  show ?case by simp
next
  case (Cons e es)
  obtain k v where e: "e = (k, v)" by (cases e)
  from Cons.prems have fresh: "k \<notin> fst ` set acc"
    by (auto simp: e)
  from Cons.prems have "distinct (map fst es)" "fst ` set es \<inter> fst ` set (acc @ [(k, v)]) = {}"
    by (auto simp: e)
  then have "fold (\<lambda>(k, v) m. map_set k v m) es (acc @ [(k, v)]) = (acc @ [(k, v)]) @ es"
    by (rule Cons.IH)
  with fresh show ?case
    by (simp add: e map_set_fresh)
qed

lemma insert_all_distinct: "distinct (map fst es) \<Longrightarrow> insert_all es = es"
  using fold_set_distinct [of es "[]"] by (simp add: insert_all_def)

lemma sample_metrics: "computeFloorMetrics (nodes sample_data) = (Fin 6, js_div (Fin 6) (Fin 10))"
  by (simp add: sample_data_def computeFloorMetrics_def floor_span_def map_values_def
      metrics_step_def js_gt_def js_sub_def js_max_def js_seq_def)

text \<open>
  C5, as it holds. \<open>L_floor\<close> and \<open>A_ref\<close> depend on the nodes mapping only through the
  values it holds, whatever the order of their insertion: two mappings with the same entries
  in different orders give the same two metrics, and so do the mappings that the same nodes
  build when inserted in two orders, no id being repeated among them (of two nodes with
  the same id the mapping keeps the one inserted last). Adding a constant to every \<open>x\<close> and a
  constant to every \<open>y\<close> leaves both unchanged when the translation is exact, every sum
  of a coordinate and its constant being a number of the format. When the computed span
  \<open>Math.max(rangeX, rangeY)\<close> is exactly \<open>0\<close>, \<open>L_floor\<close> is \<open>1\<close> and \<open>A_ref\<close> is
  \<open>1 / 10\<close>; in every case \<open>A_ref\<close> is \<open>L_floor / 10\<close>.
\<close>

theorem floor_metrics_invariant:
  "(mset nm' = mset nm \<longrightarrow> computeFloorMetrics nm' = computeFloorMetrics nm)
   \<and> (mset es' = mset es \<and> distinct (map fst es)
        \<longrightarrow> computeFloorMetrics (insert_all es') = computeFloorMetrics (insert_all es))
   \<and> (exact_translation dx dy nm
        \<longrightarrow> computeFloorMetrics (translate_nodes dx dy nm) = computeFloorMetrics nm)
   \<and> (floor_span nm = Fin 0 \<longrightarrow> computeFloorMetrics nm = (Fin 1, js_div (Fin 1) (Fin 10)))
   \<and> snd (computeFloorMetrics nm) = js_div (fst (computeFloorMetrics nm)) (Fin 10)"
proof -
  have p: "floor_span nm' = floor_span nm" if "mset nm' = mset nm" for nm' nm :: "(jsnum, node) jsmap"
    using fold_metrics_permuted [OF that] by (simp add: floor_span_def)
  have "floor_span (insert_all es') = floor_span (insert_all es)"
    if m: "mset es' = mset es" and d: "distinct (map fst es)"
  proof -
    from m have "mset (map fst es') = mset (map fst es)" by simp
    with d have "distinct (map fst es')"
      by (metis mset_eq_imp_distinct_iff)
    with d p [OF m] show ?thesis
      by (simp add: insert_all_distinct)
  qed
  with p [of nm' nm] show ?thesis
    by (simp add: computeFloorMetrics_def floor_span_translate js_seq_def Let_def)
qed

theorem floor_metrics_invariant_witness:
  "mset (rev (nodes sample_data)) = mset (nodes sample_data)
   \<and> distinct (map fst (nodes sample_data))
   \<and> computeFloorMetrics (insert_all (rev (nodes sample_data)))
       = computeFloorMetrics (insert_all (nodes sample_data))
   \<and> exact_translation 10 (- 3) (nodes sample_data)
   \<and> computeFloorMetrics (nodes sample_data) = (Fin 6, js_div (Fin 6) (Fin 10))
   \<and> computeFloorMetrics (rev (nodes sample_data)) = (Fin 6, js_div (Fin 6) (Fin 10))
   \<and> computeFloorMetrics (translate_nodes 10 (- 3) (nodes sample_data))
       = (Fin 6, js_div (Fin 6) (Fin 10))
   \<and> floor_span colocated_nodes = Fin 0
   \<and> computeFloorMetrics colocated_nodes = (Fin 1, js_div (Fin 1) (Fin 10))"
proof -
  note m = sample_metrics
  have e: "exact_translation 10 (- 3) (nodes sample_data)"
    by (simp add: exact_translation_def exact_shift_def sample_data_def map_values_def)
  have z: "floor_span colocated_nodes = Fin 0"
    by (simp add: colocated_nodes_def floor_span_def map_values_def metrics_step_def js_gt_def
        js_sub_def js_max_def)
  have d: "distinct (map fst (nodes sample_data))"
    by (simp add: sample_data_def)
  show ?thesis
    using floor_metrics_invariant [of "rev (nodes sample_data)" "nodes sample_data"
        "rev (nodes sample_data)" "nodes sample_data" 10 "- 3"]
      floor_metrics_invariant [of "[]" colocated_nodes "[]" "[]" 0 0] m e z d
    by simp
qed

text \<open>
  C5 as stated, for every constant offset, fails where the translation rounds. The two
  nodes of \<open>span_nodes\<close> are \<open>6\<close> apart and \<open>L_floor\<close> is \<open>6\<close>. Moved by \<open>1e17\<close> along
  \<open>x\<close> they stand at \<open>0 + 1e17\<close> and \<open>6 + 1e17\<close>, which are both the number \<open>1e17\<close>, the
  numbers of the format being \<open>16\<close> apart there: the computed span is \<open>0\<close> and \<open>L_floor\<close>
  is \<open>1\<close>.
\<close>

theorem floor_metrics_invariant_counterexample:
  "translate_nodes (10 ^ 17) 0 span_nodes
     = [(Fin 1, \<lparr>node_id = Fin 1, node_x = Fin (10 ^ 17), node_y = Fin 0, node_z = Fin 0\<rparr>),
        (Fin 2, \<lparr>node_id = Fin 2, node_x = Fin (10 ^ 17), node_y = Fin 0, node_z = Fin 0\<rparr>)]
   \<and> fst (computeFloorMetrics span_nodes) = Fin 6
   \<and> floor_span (translate_nodes (10 ^ 17) 0 span_nodes) = Fin 0
   \<and> fst (computeFloorMetrics (translate_nodes (10 ^ 17) 0 span_nodes)) = Fin 1
   \<and> computeFloorMetrics (translate_nodes (10 ^ 17) 0 span_nodes) \<noteq> computeFloorMetrics span_nodes"
proof -
  have t: "translate_nodes (10 ^ 17) 0 span_nodes
     = [(Fin 1, \<lparr>node_id = Fin 1, node_x = Fin (10 ^ 17), node_y = Fin 0, node_z = Fin 0\<rparr>),
        (Fin 2, \<lparr>node_id = Fin 2, node_x = Fin (10 ^ 17), node_y = Fin 0, node_z = Fin 0\<rparr>)]"
    by (simp add: translate_nodes_def span_nodes_def to_double_big to_double_big_exact)
  have a: "fst (computeFloorMetrics span_nodes) = Fin 6"
    by (simp add: span_nodes_def computeFloorMetrics_def floor_span_def map_values_def
      metrics_step_def js_gt_def js_sub_def js_max_def js_seq_def)
  have b: "floor_span (translate_nodes (10 ^ 17) 0 span_nodes) = Fin 0"
    unfolding t
    by (simp add: floor_span_def map_values_def metrics_step_def js_gt_def js_sub_def js_max_def)
  then have c: "fst (computeFloorMetrics (translate_nodes (10 ^ 17) 0 span_nodes)) = Fin 1"
    by (simp add: computeFloorMetrics_def js_seq_def)
  from a c have "computeFloorMetrics (translate_nodes (10 ^ 17) 0 span_nodes)
      \<noteq> computeFloorMetrics span_nodes"
    by (metis jsnum.inject numeral_eq_one_iff semiring_norm(85) one_eq_numeral_iff)
  with t a b c show ?thesis by simp
qed

section \<open>The parser\<close>

lemma validate_dup_data:
  "validate_data dup_data
     = \<lparr>errors = [], warnings = [\<lparr>code = W_NODE_Z_MIXED, message = []\<rparr>]\<rparr>"
  by (simp add: validate_data_def validateFloorData_def dup_data_def check_required_def
        validate_present_def check_line_def map_has_def js_seq_def check_freq_def js_isNaN_def
        js_le_def js_gt_def check_mode_has_freq_def check_freq_has_mode_def map_keys_def
        check_mode_shape_def EPS_def check_z_mixed_def map_values_def js_sub_def
        warning_step_def pushWarning_def)

lemma map_of_fold_entries:
  "map_of (fold (\<lambda>(a, b) m. map_set (kf a) (vf b) m) es acc) k
     = (case map_of (rev (map (\<lambda>(a, b). (kf a, vf b)) es)) k of
          None \<Rightarrow> map_of acc k
        | Some v \<Rightarrow> Some v)"
proof (induction es arbitrary: acc)
  case Nil
  then show ?case by simp
next
  case (Cons e es)
  obtain a b where e: "e = (a, b)" by (cases e)
  show ?case
    by (simp add: e Cons map_of_map_set map_add_def split: option.splits)
qed

lemma map_of_fold_const:
  "map_of (fold (\<lambda>i m. map_set i v m) ks acc) k = (if k \<in> set ks then Some v else map_of acc k)"
  by (induction ks arbitrary: acc) (simp_all add: map_of_map_set)

lemma map_has_keys: "map_has nm k \<longleftrightarrow> k \<in> set (map_keys nm)"
  by (simp add: map_has_def map_keys_def map_of_eq_None_iff)

lemma parse_uzMap_lookup:
  "map_of (parse_uzMap sn nm modeVal) k
     = (case (if is_object modeVal
              then map_of (rev (map (\<lambda>(nodeKey, uzVal). (js_Number sn (Some (JStr nodeKey)),
                                                        js_Number sn (Some uzVal)))
                                 (entries modeVal))) k
              else None) of
          None \<Rightarrow> if map_has nm k then Some (Fin 0) else None
        | Some v \<Rightarrow> Some v)"
  by (simp add: parse_uzMap_def Let_def map_of_fold_entries map_of_fold_const map_has_keys
      split: option.splits)

lemma parse_modes_lookup:
  assumes "map_get (parse_modes sn nm v) m = Some modeShape"
  shows "\<exists>ms modeKey modeVal. v = Some ms \<and> (modeKey, modeVal) \<in> set (entries ms)
           \<and> js_Number sn (Some (JStr modeKey)) = m \<and> modeShape = parse_uzMap sn nm modeVal"
proof -
  from assms obtain ms where v: "v = Some ms" and obj: "is_object ms"
    by (cases v) (auto simp: parse_modes_def map_get_def split: if_splits)
  let ?es = "map (\<lambda>(modeKey, modeVal). (js_Number sn (Some (JStr modeKey)), parse_uzMap sn nm modeVal))
               (entries ms)"
  from assms v obj have "map_of (rev ?es) m = Some modeShape"
    by (simp add: parse_modes_def map_get_def map_of_fold_entries split: option.splits)
  then have "(m, modeShape) \<in> set ?es"
    by (auto dest: map_of_SomeD)
  with v show ?thesis by auto
qed

lemma parse_converted_modes:
  "parse_converted sn data = Inr d
   \<Longrightarrow> modes d = parse_modes sn (nodes d) (get_prop data ''modes'')"
  by (auto simp: parse_converted_def split: if_splits sum.splits option.splits json.splits)

lemma source_mode_in_modes:
  assumes "parse_converted sn data = Inr d"
    and "get_prop data ''modes'' = Some ms" and "is_object ms"
    and "(modeKey, modeVal) \<in> set (entries ms)"
  shows "map_has (modes d) (js_Number sn (Some (JStr modeKey)))"
proof -
  let ?es = "map (\<lambda>(modeKey, modeVal). (js_Number sn (Some (JStr modeKey)),
                                          parse_uzMap sn (nodes d) modeVal)) (entries ms)"
  from assms(4) have "js_Number sn (Some (JStr modeKey)) \<in> fst ` set (rev ?es)"
    by force
  then have "map_of (rev ?es) (js_Number sn (Some (JStr modeKey))) \<noteq> None"
    by (simp only: map_of_eq_None_iff not_not)
  with assms(1-3) show ?thesis
    by (simp add: parse_converted_modes parse_modes_def map_has_def map_of_fold_entries
        split: option.splits)
qed

lemma shape_has_every_node:
  assumes "parse_converted sn data = Inr d"
    and "map_get (modes d) m = Some modeShape"
    and "map_has (nodes d) k"
  shows "map_has modeShape k
       \<and> (\<not> source_gives_uz sn data m k \<longrightarrow> map_get modeShape k = Some (Fin 0))"
proof -
  from assms(1,2) obtain ms modeKey modeVal where
    ms: "get_prop data ''modes'' = Some ms" and e: "(modeKey, modeVal) \<in> set (entries ms)"
    and m: "js_Number sn (Some (JStr modeKey)) = m"
    and shape: "modeShape = parse_uzMap sn (nodes d) modeVal"
    using parse_modes_lookup [of sn "nodes d" "get_prop data ''modes''" m modeShape]
    by (auto simp: parse_converted_modes)
  have has: "map_has modeShape k"
    using assms(3) by (simp add: map_has_def shape parse_uzMap_lookup split: option.splits)
  have zero: "map_get modeShape k = Some (Fin 0)" if no: "\<not> source_gives_uz sn data m k"
  proof (cases "is_object modeVal")
    case False
    with assms(3) show ?thesis
      by (simp add: map_get_def shape parse_uzMap_lookup)
  next
    case True
    with no ms e m have "\<forall>(nodeKey, uzVal) \<in> set (entries modeVal).
        js_Number sn (Some (JStr nodeKey)) \<noteq> k"
      by (fastforce simp: source_gives_uz_def list_ex_iff)
    then have "map_of (rev (map (\<lambda>(nodeKey, uzVal). (js_Number sn (Some (JStr nodeKey)),
                                                      js_Number sn (Some uzVal)))
                               (entries modeVal))) k = None"
      by (force simp: map_of_eq_None_iff)
    with assms(3) True show ?thesis
      by (simp add: map_get_def shape parse_uzMap_lookup)
  qed
  from has zero show ?thesis by blast
qed

lemma convert_kebab_json:
  "convertKeysToCamelCase kebab_json =
     JObj [(''nodes'', JArr [JObj [(''id'', JNum (Fin 1)), (''x'', JNum (Fin 0)),
                                   (''y'', JNum (Fin 0)), (''z'', JNum (Fin 0))],
                             JObj [(''id'', JNum (Fin 2)), (''x'', JNum (Fin 6)),
                                   (''y'', JNum (Fin 0)), (''z'', JNum (Fin 0))],
                             JObj [(''id'', JNum (Fin 3)), (''x'', JNum (Fin 6)),
                                   (''y'', JNum (Fin 4)), (''z'', JNum (Fin 0))]]),
           (''lines'', JArr [JObj [(''id'', JNum (Fin 1)), (''nodeI'', JNum (Fin 1)),
                                   (''nodeJ'', JNum (Fin 2))]]),
           (''freqHz'', JObj [(''1'', JNum (Fin 5))]),
           (''modes'', JObj [(''1'', JObj [(''1'', JNum (Fin 1)), (''2'', JNum (Fin 0.5))])])]"
  by (simp add: kebab_json_def is_alnum_def upper_char_def obj_set_def key_before_def
      array_index_def digit_of_def)

lemma parse_kebab_json: "parseFloorData signed_number kebab_json = Inr kebab_data"
  by (simp add: parseFloorData_def convert_kebab_json)
    (simp add: parse_converted_def kebab_data_def map_get_def parse_freqHz_def parse_modes_def
      parse_uzMap_def map_keys_def signed_number_def digits_number_def digit_of_def Let_def
      parse_node_def)

text \<open>
  C4, as it holds. Let the parser return a data set. Every mode that the source defines
  after the conversion of its keys to camel case, under the number its key converts to, is
  a mode of the modes mapping. For every mode of the modes mapping and every node id of the
  nodes mapping, the shape of the mode has an entry for the node; and when the source, its
  keys converted, gives no amplitude for that node in that mode, the entry is \<open>0.0\<close>.
\<close>

theorem every_node_has_amplitude:
  assumes "parseFloorData sn raw = Inr d"
  shows "(\<forall>ms modeKey modeVal.
            get_prop (convertKeysToCamelCase raw) ''modes'' = Some ms \<and> is_object ms
            \<and> (modeKey, modeVal) \<in> set (entries ms)
            \<longrightarrow> map_has (modes d) (js_Number sn (Some (JStr modeKey))))
       \<and> (\<forall>m modeShape k.
            map_get (modes d) m = Some modeShape \<and> map_has (nodes d) k
            \<longrightarrow> map_has modeShape k
                \<and> (\<not> source_gives_uz sn (convertKeysToCamelCase raw) m k
                    \<longrightarrow> map_get modeShape k = Some (Fin 0)))"
proof -
  from assms have p: "parse_converted sn (convertKeysToCamelCase raw) = Inr d"
    by (simp add: parseFloorData_def)
  show ?thesis
    using source_mode_in_modes [OF p] shape_has_every_node [OF p] by blast
qed

theorem every_node_has_amplitude_witness:
  "parseFloorData signed_number kebab_json = Inr kebab_data
   \<and> get_prop (convertKeysToCamelCase kebab_json) ''modes''
       = Some (JObj [(''1'', JObj [(''1'', JNum (Fin 1)), (''2'', JNum (Fin 0.5))])])
   \<and> map_has (modes kebab_data) (signed_number (JStr ''1''))
   \<and> signed_number (JStr ''1'') = Fin 1
   \<and> map_get (modes kebab_data) (Fin 1) = Some [(Fin 1, Fin 1), (Fin 2, Fin 0.5), (Fin 3, Fin 0)]
   \<and> map_has (nodes kebab_data) (Fin 3)
   \<and> \<not> source_gives_uz signed_number (convertKeysToCamelCase kebab_json) (Fin 1) (Fin 3)
   \<and> map_has [(Fin 1, Fin 1), (Fin 2, Fin 0.5), (Fin 3, Fin 0 :: jsnum)] (Fin 3)
   \<and> map_get [(Fin 1, Fin 1), (Fin 2, Fin 0.5), (Fin 3, Fin 0)] (Fin 3) = Some (Fin 0)"
proof -
  note T = every_node_has_amplitude [OF parse_kebab_json]
  have p: "get_prop (convertKeysToCamelCase kebab_json) ''modes''
       = Some (JObj [(''1'', JObj [(''1'', JNum (Fin 1)), (''2'', JNum (Fin 0.5))])])"
    by (simp add: convert_kebab_json)
  have n: "signed_number (JStr ''1'') = Fin 1"
    by (simp add: signed_number_def digits_number_def digit_of_def)
  have a: "map_get (modes kebab_data) (Fin 1)
       = Some [(Fin 1, Fin 1), (Fin 2, Fin 0.5), (Fin 3, Fin 0)]"
    by (simp add: kebab_data_def map_get_def)
  have b: "map_has (nodes kebab_data) (Fin 3)"
    by (simp add: kebab_data_def map_has_def)
  have c: "\<not> source_gives_uz signed_number (convertKeysToCamelCase kebab_json) (Fin 1) (Fin 3)"
    by (simp add: source_gives_uz_def convert_kebab_json signed_number_def digits_number_def
        digit_of_def)
  from T p have "map_has (modes kebab_data) (js_Number signed_number (Some (JStr ''1'')))"
    by fastforce
  then have m: "map_has (modes kebab_data) (signed_number (JStr ''1''))"
    by simp
  from T a b c have "map_has [(Fin 1, Fin 1), (Fin 2, Fin 0.5), (Fin 3, Fin 0 :: jsnum)] (Fin 3)
      \<and> map_get [(Fin 1, Fin 1), (Fin 2, Fin 0.5), (Fin 3, Fin 0)] (Fin 3) = Some (Fin 0)"
    by blast
  with parse_kebab_json p n a b c m show ?thesis
    by blast
qed

text \<open>
  C4 as stated, on what the source gives, fails where the conversion of the keys changes a
  node key. The source \<open>kebab_json\<close> has the nodes \<open>1\<close>, \<open>2\<close> and \<open>3\<close>, and its one
  mode gives amplitudes under the keys \<open>1\<close> and \<open>-2\<close>, numbers \<open>1\<close> and \<open>-2\<close>: none
  for node \<open>2\<close>. The conversion rewrites the key \<open>-2\<close> to \<open>2\<close>, and the shape that the
  parser returns holds \<open>0.5\<close> for node \<open>2\<close>, not \<open>0.0\<close>.
\<close>

theorem every_node_has_amplitude_counterexample:
  "parseFloorData signed_number kebab_json = Inr kebab_data
   \<and> signed_number (JStr ''-2'') = Fin (- 2)
   \<and> map_has (nodes kebab_data) (Fin 2)
   \<and> \<not> source_gives_uz signed_number kebab_json (Fin 1) (Fin 2)
   \<and> map_get (modes kebab_data) (Fin 1) = Some [(Fin 1, Fin 1), (Fin 2, Fin 0.5), (Fin 3, Fin 0)]
   \<and> map_get [(Fin 1, Fin 1), (Fin 2, Fin 0.5), (Fin 3, Fin 0)] (Fin 2) = Some (Fin 0.5)
   \<and> Fin 0.5 \<noteq> Fin 0"
proof -
  have n: "signed_number (JStr ''-2'') = Fin (- 2)"
    by (simp add: signed_number_def digits_number_def digit_of_def)
  have c: "\<not> source_gives_uz signed_number kebab_json (Fin 1) (Fin 2)"
    by (simp add: source_gives_uz_def kebab_json_def signed_number_def digits_number_def
        digit_of_def)
  show ?thesis
    using parse_kebab_json n c by (simp add: kebab_data_def map_get_def map_has_def)
qed

section \<open>Duplicate node ids\<close>

lemma map_set_keys: "set (map_keys (map_set k v m)) = insert k (set (map_keys m))"
proof (induction m)
  case Nil
  show ?case by (simp add: map_keys_def)
next
  case (Cons e m)
  obtain k' v' where e: "e = (k', v')" by (cases e)
  from Cons show ?case
    by (cases "k' = k") (auto simp: e map_keys_def)
qed

lemma find_in_append:
  "find P (xs @ ys) = (case find P xs of None \<Rightarrow> find P ys | Some x \<Rightarrow> Some x)"
  by (induction xs) simp_all

lemma map_set_distinct: "distinct (map_keys m) \<Longrightarrow> distinct (map_keys (map_set k v m))"
proof (induction m)
  case Nil
  then show ?case by (simp add: map_keys_def)
next
  case (Cons e m)
  obtain k' v' where e: "e = (k', v')" by (cases e)
  from Cons have "distinct (map_keys (map_set k v m))" "k' \<notin> set (map_keys m)"
    by (simp_all add: map_keys_def e)
  then show ?case
    using Cons.prems map_set_keys [of k v m] by (auto simp: e map_keys_def)
qed

lemma parse_nodes_distinct:
  "parse_nodes sn ns (nm, cm) = Inr (nm', cm') \<Longrightarrow> distinct (map_keys nm)
   \<Longrightarrow> distinct (map_keys nm')"
proof (induction ns arbitrary: nm cm)
  case Nil
  then show ?case by simp
next
  case (Cons n ns)
  from Cons.prems(1) have "n \<noteq> JNull"
    by (auto split: if_splits)
  with Cons.prems show ?case
    by (auto intro!: Cons.IH map_set_distinct)
qed

lemma parse_converted_distinct:
  assumes "parse_converted sn data = Inr d"
  shows "distinct (map_keys (nodes d))"
proof (cases "get_prop data ''nodes''")
  case None
  with assms show ?thesis
    by (auto simp: parse_converted_def map_keys_def split: if_splits sum.splits)
next
  case (Some j)
  show ?thesis
  proof (cases j)
    case (JArr ns)
    with Some assms obtain cm where "parse_nodes sn ns ([], []) = Inr (nodes d, cm)"
      by (auto simp: parse_converted_def split: if_splits sum.splits)
    then show ?thesis
      using parse_nodes_distinct [of sn ns "[]" "[]" "nodes d" cm] by (simp add: map_keys_def)
  qed (use Some assms in \<open>auto simp: parse_converted_def map_keys_def split: if_splits sum.splits\<close>)
qed

lemma scan_of_distinct_keys:
  "distinct (map_keys nm) \<Longrightarrow> seen \<inter> set (map_keys nm) = {}
   \<Longrightarrow> check_node_ids nm seen idx r = Continue r"
proof (induction nm seen idx r rule: check_node_ids.induct)
  case (1 seen idx r)
  then show ?case by simp
next
  case (2 i n rest seen idx r)
  from "2.prems" have "i \<notin> seen" "distinct (map_keys rest)"
    "insert i seen \<inter> set (map_keys rest) = {}"
    by (auto simp: map_keys_def)
  with "2.IH" show ?case by simp
qed

lemma node_scan_reports_nothing:
  "parse_converted sn data = Inr d \<Longrightarrow> check_node_ids (nodes d) {} 0 r = Continue r"
  by (rule scan_of_distinct_keys) (simp_all add: parse_converted_distinct)

lemma validate_ignores_counts: "validate_data (d\<lparr>nodeIdCounts := cm\<rparr>) = validate_data d"
  by (simp add: validate_data_def)

lemma last_node_wins:
  "parse_nodes sn ns (nm, cm) = Inr (nm', cm')
   \<Longrightarrow> map_get nm' k
       = (case find (\<lambda>n. node_id (parse_node sn n) = k) (rev ns) of
            None \<Rightarrow> map_get nm k
          | Some n \<Rightarrow> Some (parse_node sn n))"
proof (induction ns arbitrary: nm cm)
  case Nil
  then show ?case by simp
next
  case (Cons n ns)
  from Cons.prems have n: "n \<noteq> JNull"
    by (auto split: if_splits)
  let ?nm = "map_set (node_id (parse_node sn n)) (parse_node sn n) nm"
  from Cons.prems n obtain cm1 where "parse_nodes sn ns (?nm, cm1) = Inr (nm', cm')"
    by simp
  from Cons.IH [OF this] show ?case
    by (auto simp: find_in_append map_get_def map_of_map_set split: option.splits)
qed

lemma node_counts:
  "parse_nodes sn ns (nm, cm) = Inr (nm', cm')
   \<Longrightarrow> (case map_get cm' k of None \<Rightarrow> 0 | Some c \<Rightarrow> c)
       = (case map_get cm k of None \<Rightarrow> 0 | Some c \<Rightarrow> c)
         + length (filter (\<lambda>n. node_id (parse_node sn n) = k) ns)"
proof (induction ns arbitrary: nm cm)
  case Nil
  then show ?case by simp
next
  case (Cons n ns)
  from Cons.prems have n: "n \<noteq> JNull"
    by (auto split: if_splits)
  let ?i = "node_id (parse_node sn n)"
  let ?cm = "map_set ?i ((case map_get cm ?i of None \<Rightarrow> 0 | Some c \<Rightarrow> c) + 1) cm"
  from Cons.prems n obtain nm1 where "parse_nodes sn ns (nm1, ?cm) = Inr (nm', cm')"
    by simp
  from Cons.IH [OF this] show ?case
    by (auto simp: map_get_def map_of_map_set split: option.splits)
qed

lemma error_step_no_dup:
  "no_dup r \<Longrightarrow> c \<noteq> E_NODE_DUPLICATE \<Longrightarrow> flow_no_dup (error_step c m r)"
  by (simp add: error_step_def pushError_def no_dup_def)

lemma warning_step_no_dup: "no_dup r \<Longrightarrow> no_dup (warning_step c m r)"
  by (simp add: warning_step_def no_dup_def)

lemma guarded_error_no_dup:
  "no_dup r \<Longrightarrow> c \<noteq> E_NODE_DUPLICATE
   \<Longrightarrow> flow_no_dup (if b then error_step c m r else Continue r)"
  by (simp add: error_step_no_dup)

lemma and_then_no_dup:
  "flow_no_dup f \<Longrightarrow> (\<And>r. no_dup r \<Longrightarrow> flow_no_dup (g r)) \<Longrightarrow> flow_no_dup (and_then f g)"
  by (cases f) simp_all

lemma and_then_no_dup2:
  "flow_no_dup2 f \<Longrightarrow> (\<And>b r. no_dup r \<Longrightarrow> flow_no_dup (g (b, r)))
   \<Longrightarrow> flow_no_dup (and_then f g)"
  by (cases f) auto

lemma for_each_no_dup:
  "(\<And>x r. no_dup r \<Longrightarrow> flow_no_dup (body x r)) \<Longrightarrow> no_dup r
    \<Longrightarrow> flow_no_dup (for_each body xs r)"
proof (induction xs arbitrary: r)
  case Nil
  then show ?case by simp
next
  case (Cons x xs)
  from Cons.prems have "flow_no_dup (body x r)" by blast
  with Cons show ?case
    by (cases "body x r") simp_all
qed

lemma check_line_no_dup: "no_dup r \<Longrightarrow> flow_no_dup (check_line nm seen i l r)"
  unfolding check_line_def
  by (intro and_then_no_dup guarded_error_no_dup) simp_all

lemma check_lines_no_dup: "no_dup r \<Longrightarrow> flow_no_dup (check_lines nm ls seen i r)"
proof (induction nm ls seen i r rule: check_lines.induct)
  case (1 nm seen i r)
  then show ?case by simp
next
  case (2 nm l ls seen i r)
  from "2.prems" have "flow_no_dup (check_line nm seen i l r)" by (rule check_line_no_dup)
  with 2 show ?case
    by (cases "check_line nm seen i l r") simp_all
qed

lemma check_freq_no_dup: "no_dup r \<Longrightarrow> flow_no_dup (check_freq e r)"
  unfolding check_freq_def
  by (cases e) (auto intro!: and_then_no_dup error_step_no_dup simp: warning_step_no_dup)

lemma check_mode_has_freq_no_dup: "no_dup r \<Longrightarrow> flow_no_dup (check_mode_has_freq fm k r)"
  by (simp add: check_mode_has_freq_def error_step_no_dup)

lemma check_freq_has_mode_no_dup: "no_dup r \<Longrightarrow> flow_no_dup (check_freq_has_mode mm k r)"
  by (simp add: check_freq_has_mode_def error_step_no_dup)

lemma check_uz_no_dup: "no_dup r \<Longrightarrow> flow_no_dup2 (check_uz nm modeNum es allZero r)"
proof (induction nm modeNum es allZero r rule: check_uz.induct)
  case (1 nm modeNum allZero r)
  then show ?case by simp
next
  case (2 nm modeNum nodeId uz rest allZero r)
  let ?f = "if \<not> map_has nm nodeId
            then error_step E_MODE_NODE_UNDEF [Num modeNum, Num nodeId] r else Continue r"
  from "2.prems" have f: "flow_no_dup ?f" by (simp add: guarded_error_no_dup)
  show ?case
  proof (cases ?f)
    case (Return r')
    with f show ?thesis by simp
  next
    case (Continue r1)
    with f have b1: "no_dup r1" by simp
    have e1: "flow_no_dup (error_step E_UZ_NAN [Num modeNum, Num nodeId] r1)"
      and e2: "flow_no_dup (error_step E_UZ_INFINITY [Num modeNum, Num nodeId] r1)"
      using b1 by (simp_all add: error_step_no_dup)
    show ?thesis
    proof (cases "js_isNaN uz")
      case True
      with Continue e1 "2.IH"(1) show ?thesis
        by (cases "error_step E_UZ_NAN [Num modeNum, Num nodeId] r1") simp_all
    next
      case nan: False
      show ?thesis
      proof (cases "js_isFinite uz")
        case False
        with nan Continue e2 "2.IH"(2) show ?thesis
          by (cases "error_step E_UZ_INFINITY [Num modeNum, Num nodeId] r1") simp_all
      next
        case True
        with nan Continue b1 "2.IH"(3,4) show ?thesis
          by simp
      qed
    qed
  qed
qed

lemma check_mode_shape_no_dup: "no_dup r \<Longrightarrow> flow_no_dup (check_mode_shape nm e r)"
  unfolding check_mode_shape_def
  by (cases e) (auto intro!: and_then_no_dup2 check_uz_no_dup simp: warning_step_no_dup)

lemma check_z_mixed_no_dup: "no_dup r \<Longrightarrow> no_dup (check_z_mixed nm r)"
  by (simp add: check_z_mixed_def warning_step_no_dup split: list.splits)

lemma validate_present_no_dup:
  assumes "distinct (map_keys nm)" and "no_dup r"
  shows "flow_no_dup (validate_present nm ll fm mm r)"
proof -
  have scan: "check_node_ids nm {} 0 r' = Continue r'" for r'
    using assms(1) by (simp add: scan_of_distinct_keys)
  show ?thesis
    unfolding validate_present_def scan
    using assms(2)
    by (intro and_then_no_dup guarded_error_no_dup check_lines_no_dup for_each_no_dup
        check_freq_no_dup check_mode_has_freq_no_dup check_freq_has_mode_no_dup
        check_mode_shape_no_dup)
      (simp_all add: check_z_mixed_no_dup)
qed

lemma never_reports_duplicate:
  assumes "parseFloorData sn raw = Inr d"
  shows "no_dup (validate_data d)"
proof -
  from assms have "parse_converted sn (convertKeysToCamelCase raw) = Inr d"
    by (simp add: parseFloorData_def)
  then have "distinct (map_keys (nodes d))"
    by (rule parse_converted_distinct)
  then have "flow_no_dup (validate_present (nodes d) (lines d) (freqHz d) (modes d)
               \<lparr>errors = [], warnings = []\<rparr>)"
    by (rule validate_present_no_dup) (simp add: no_dup_def)
  then show ?thesis
    by (cases "validate_present (nodes d) (lines d) (freqHz d) (modes d)
               \<lparr>errors = [], warnings = []\<rparr>")
      (simp_all add: validate_data_def validateFloorData_def check_required_def)
qed

text \<open>
  C1. A source with two nodes of the same id. The parser counts the two occurrences and
  the nodes mapping holds the values of the last one. The validator reads the keys of the
  nodes mapping, which are distinct, and not the counts: its report for this source has no
  error at all, where the specification has exactly one \<open>E_NODE_DUPLICATE\<close>. By
  \<open>never_reports_duplicate\<close> no report of a parsed source ever holds that error.
\<close>

theorem duplicate_node_not_reported:
  "parseFloorData digits_number dup_json = Inr dup_data
   \<and> map_get (nodeIdCounts dup_data) (Fin 1) = Some 2
   \<and> map_get (nodes dup_data) (Fin 1)
       = Some \<lparr>node_id = Fin 1, node_x = Fin 6, node_y = Fin 4, node_z = Fin 1\<rparr>
   \<and> validate_data dup_data
       = \<lparr>errors = [], warnings = [\<lparr>code = W_NODE_Z_MIXED, message = []\<rparr>]\<rparr>"
  using parse_dup_json validate_dup_data by (simp add: dup_data_def map_get_def)

end
